theory Spec2Isabelle
  imports Complex_Main
begin

section \<open>Numbers and the random facilities of the standard library\<close>

text \<open>
  The engine of \<^verbatim>\<open>DifferentialEvolution.h\<close> computes with \<^verbatim>\<open>double\<close>. A double is
  modelled as a \<^typ>\<open>real\<close>: rounding and NaN are outside the model. The one non-finite
  value the engine itself writes is the \<^verbatim>\<open>-infinity\<close> that the constructor stores in
  \<^verbatim>\<open>m_minCost\<close>; the type of that field has it as a constructor of its own.
\<close>

datatype min_cost = MinusInfinity | Finite real

text \<open>\<^verbatim>\<open>v < m\<close> for a finite \<^verbatim>\<open>v\<close> and a stored \<^verbatim>\<open>m_minCost\<close>.\<close>

fun less_min_cost :: "real \<Rightarrow> min_cost \<Rightarrow> bool" where
  "less_min_cost v MinusInfinity = False"
| "less_min_cost v (Finite m) = (v < m)"

text \<open>
  \<^verbatim>\<open>int a = distribution(m_generator);\<close> converts a double to an \<^verbatim>\<open>int\<close>: the value is
  truncated towards zero.
\<close>

definition double_to_int :: "real \<Rightarrow> int" where
  "double_to_int v = (if 0 \<le> v then \<lfloor>v\<rfloor> else \<lceil>v\<rceil>)"

text \<open>
  \<^verbatim>\<open>std::default_random_engine\<close> and \<^verbatim>\<open>std::uniform_real_distribution<double>\<close> belong to
  the C++ standard library, not to this repository, and the engine type is implementation
  defined. They are parameters of the model: a generator state of any type \<open>'g\<close>, the
  seeding function, the draw from \<^verbatim>\<open>uniform_real_distribution(a, b)\<close>, which returns the
  value and the advanced generator, and the draw from the distribution that
  \<^verbatim>\<open>InitPopulation\<close> builds over \<^verbatim>\<open>g_defaultLowerConstraint\<close> and
  \<^verbatim>\<open>g_defaultUpperConstarint\<close> (minus and plus infinity) for an unconstrained dimension.
\<close>

record 'g random_library =
  seed_generator :: "int \<Rightarrow> 'g"
  uniform_real :: "real \<Rightarrow> real \<Rightarrow> 'g \<Rightarrow> real \<times> 'g"
  uniform_default :: "'g \<Rightarrow> real \<times> 'g"

text \<open>
  What the standard promises of \<^verbatim>\<open>uniform_real_distribution(a, b)\<close> when \<open>a \<le> b\<close>: the
  value lies in \<open>[a, b)\<close> (and is \<open>a\<close> when the interval is empty).
\<close>

definition uniform_in_range :: "'g random_library \<Rightarrow> bool" where
  "uniform_in_range lib \<longleftrightarrow>
     (\<forall>a b g. a \<le> b \<longrightarrow>
        a \<le> fst (uniform_real lib a b g) \<and> fst (uniform_real lib a b g) \<le> b \<and>
        (a < b \<longrightarrow> fst (uniform_real lib a b g) < b))"

section \<open>The cost interface\<close>

record Constraints =
  lower :: real
  upper :: real
  isConstrained :: bool

definition Check :: "Constraints \<Rightarrow> real \<Rightarrow> bool" where
  "Check k candidate =
     (if isConstrained k then
        (if candidate \<le> upper k \<and> candidate \<ge> lower k then True else False)
      else True)"

record IOptimizable =
  EvaluteCost :: "real list \<Rightarrow> real"
  NumberOfParameters :: nat
  GetConstraints :: "Constraints list"

section \<open>The engine\<close>

text \<open>
  The members of \<^verbatim>\<open>class DifferentialEvolution\<close>. The two \<^verbatim>\<open>std::function\<close> members
  \<^verbatim>\<open>m_callback\<close> and \<^verbatim>\<open>m_terminationCondition\<close> take the engine itself as argument; they
  are only read by \<^verbatim>\<open>Optimize\<close> and are passed to its model as arguments. Indices and sizes
  are natural numbers or integers without wrap-around (a population has far fewer than
  \<open>2^31\<close> agents). Reading a vector outside its bounds is undefined in the source and an
  unspecified value in the model; the statements below that depend on the content of a
  slot keep their indices in range by hypothesis.
\<close>

record 'g DifferentialEvolution =
  m_cost :: IOptimizable
  m_populationSize :: nat
  m_F :: real
  m_CR :: real
  m_numberOfParameters :: nat
  m_shouldCheckConstraints :: bool
  m_generator :: 'g
  m_population :: "real list list"
  m_minCostPerAgent :: "real list"
  m_constraints :: "Constraints list"
  m_bestAgentIndex :: nat
  m_minCost :: min_cost

datatype error = AssertionFailed

text \<open>
  The constructor. \<^verbatim>\<open>assert(m_populationSize >= 4)\<close> is a branch of the model: the failed
  assertion aborts construction (the model is of a build in which \<^verbatim>\<open>assert\<close> is active, that
  is, without \<^verbatim>\<open>NDEBUG\<close>). \<^verbatim>\<open>resize\<close> value-initialises the new elements, so the
  population and the cost cache start filled with zeros.
\<close>

definition construct ::
  "'g random_library \<Rightarrow> IOptimizable \<Rightarrow> nat \<Rightarrow> int \<Rightarrow> bool \<Rightarrow> error + 'g DifferentialEvolution"
where
  "construct lib costFunction populationSize randomSeed shouldCheckConstraints =
     (if populationSize \<ge> 4 then
        Inr \<lparr> m_cost = costFunction,
              m_populationSize = populationSize,
              m_F = 0.8,
              m_CR = 0.9,
              m_numberOfParameters = NumberOfParameters costFunction,
              m_shouldCheckConstraints = shouldCheckConstraints,
              m_generator = seed_generator lib randomSeed,
              m_population =
                replicate populationSize (replicate (NumberOfParameters costFunction) 0),
              m_minCostPerAgent = replicate populationSize 0,
              m_constraints = GetConstraints costFunction,
              m_bestAgentIndex = 0,
              m_minCost = MinusInfinity \<rparr>
      else Inl AssertionFailed)"

subsection \<open>Accessors\<close>

definition GetBestAgent :: "'g DifferentialEvolution \<Rightarrow> real list" where
  "GetBestAgent s = m_population s ! m_bestAgentIndex s"

definition GetBestCost :: "'g DifferentialEvolution \<Rightarrow> real" where
  "GetBestCost s = m_minCostPerAgent s ! m_bestAgentIndex s"

definition GetPopulationWithCosts :: "'g DifferentialEvolution \<Rightarrow> (real list \<times> real) list" where
  "GetPopulationWithCosts s =
     fold (\<lambda>i toRet. toRet @ [(m_population s ! i, m_minCostPerAgent s ! i)])
       [0..<m_populationSize s] []"

subsection \<open>InitPopulation\<close>

text \<open>
  The draw for dimension \<open>i\<close> of an agent: from \<open>[lower, upper)\<close> when the dimension is
  constrained, from the default distribution otherwise.
\<close>

definition draw_initial :: "'g random_library \<Rightarrow> Constraints list \<Rightarrow> nat \<Rightarrow> 'g \<Rightarrow> real \<times> 'g" where
  "draw_initial lib cs i g =
     (if isConstrained (cs ! i) then uniform_real lib (lower (cs ! i)) (upper (cs ! i)) g
      else uniform_default lib g)"

text \<open>The inner loop \<^verbatim>\<open>for (int i = 0; i < m_numberOfParameters; i++) agent[i] = ...\<close>.\<close>

definition init_agent ::
  "'g random_library \<Rightarrow> Constraints list \<Rightarrow> nat \<Rightarrow> real list \<times> 'g \<Rightarrow> real list \<times> 'g"
where
  "init_agent lib cs n =
     fold (\<lambda>i (agent, g). let (v, g') = draw_initial lib cs i g in (agent[i := v], g')) [0..<n]"

text \<open>The outer loop \<^verbatim>\<open>for (auto& agent : m_population)\<close>, one generator for all agents.\<close>

definition init_agents ::
  "'g random_library \<Rightarrow> Constraints list \<Rightarrow> nat \<Rightarrow> real list list \<times> 'g \<Rightarrow> real list list \<times> 'g"
where
  "init_agents lib cs n pg =
     fold (\<lambda>k (pop, g). let (agent, g') = init_agent lib cs n (pop ! k, g) in (pop[k := agent], g'))
       [0..<length (fst pg)] pg"

text \<open>One round of the second loop: evaluate slot \<open>i\<close>, then compare with \<^verbatim>\<open>m_minCost\<close>.\<close>

definition init_cost :: "nat \<Rightarrow> 'g DifferentialEvolution \<Rightarrow> 'g DifferentialEvolution" where
  "init_cost i s =
     (let s1 = s\<lparr>m_minCostPerAgent :=
                  (m_minCostPerAgent s)[i := EvaluteCost (m_cost s) (m_population s ! i)]\<rparr>
      in if less_min_cost (m_minCostPerAgent s1 ! i) (m_minCost s1)
         then s1\<lparr>m_minCost := Finite (m_minCostPerAgent s1 ! i), m_bestAgentIndex := i\<rparr>
         else s1)"

definition InitPopulation :: "'g random_library \<Rightarrow> 'g DifferentialEvolution \<Rightarrow> 'g DifferentialEvolution" where
  "InitPopulation lib s =
     (let (pop, g) = init_agents lib (m_constraints s) (m_numberOfParameters s)
                       (m_population s, m_generator s)
      in fold init_cost [0..<m_populationSize s] (s\<lparr>m_population := pop, m_generator := g\<rparr>))"

subsection \<open>SelectionAndCorssing\<close>

text \<open>
  The rejection loop \<^verbatim>\<open>while (a == x || b == x || c == x || a == b || a == c || b == c)\<close>.
  It has no bound on its rounds, so its model returns \<open>None\<close> when the loop never exits.
\<close>

partial_function (option) select_donors ::
  "'g random_library \<Rightarrow> nat \<Rightarrow> int \<Rightarrow> int \<Rightarrow> int \<Rightarrow> int \<Rightarrow> 'g \<Rightarrow> (int \<times> int \<times> int \<times> 'g) option"
where
  "select_donors lib N x a b c g =
     (if a = x \<or> b = x \<or> c = x \<or> a = b \<or> a = c \<or> b = c then
        (let (va, g1) = uniform_real lib 0 (real N) g;
             (vb, g2) = uniform_real lib 0 (real N) g1;
             (vc, g3) = uniform_real lib 0 (real N) g2
         in select_donors lib N x (double_to_int va) (double_to_int vb) (double_to_int vc) g3)
      else Some (a, b, c, g))"

text \<open>The intermediate solution \<open>z\<close>.\<close>

definition mutate :: "'g DifferentialEvolution \<Rightarrow> int \<Rightarrow> int \<Rightarrow> int \<Rightarrow> real list" where
  "mutate s a b c =
     fold (\<lambda>i z. z[i := m_population s ! nat a ! i
                          + m_F s * (m_population s ! nat b ! i - m_population s ! nat c ! i)])
       [0..<m_numberOfParameters s] (replicate (m_numberOfParameters s) 0)"

text \<open>The vector \<open>r\<close>: one draw from \<open>[0, 1)\<close> for each dimension, in index order.\<close>

definition draw_r :: "'g random_library \<Rightarrow> nat \<Rightarrow> 'g \<Rightarrow> real list \<times> 'g" where
  "draw_r lib n g =
     fold (\<lambda>i (r, g). let (v, g') = uniform_real lib 0 1 g in (r[i := v], g'))
       [0..<n] (replicate n 0, g)"

text \<open>The crossing loop that fills \<^verbatim>\<open>newX\<close>.\<close>

definition crossing ::
  "'g DifferentialEvolution \<Rightarrow> nat \<Rightarrow> real list \<Rightarrow> int \<Rightarrow> real list \<Rightarrow> real list"
where
  "crossing s x z R r =
     fold (\<lambda>i newX. if r ! i < m_CR s \<or> int i = R then newX[i := z ! i]
                     else newX[i := m_population s ! x ! i])
       [0..<m_numberOfParameters s] (replicate (m_numberOfParameters s) 0)"

text \<open>
  From the donors to the trial vector: \<open>z\<close>, then \<open>R\<close>, then \<open>r\<close>, then the crossing. The
  result is \<^verbatim>\<open>newX\<close> and the generator after the draws.
\<close>

definition make_trial ::
  "'g random_library \<Rightarrow> 'g DifferentialEvolution \<Rightarrow> nat \<Rightarrow> int \<Rightarrow> int \<Rightarrow> int \<Rightarrow> 'g \<Rightarrow> real list \<times> 'g"
where
  "make_trial lib s x a b c g1 =
     (let z = mutate s a b c;
          (vR, g2) = uniform_real lib 0 (real (m_numberOfParameters s)) g1;
          R = double_to_int vR;
          (r, g3) = draw_r lib (m_numberOfParameters s) g2
      in (crossing s x z R r, g3))"

definition CheckConstraints :: "'g DifferentialEvolution \<Rightarrow> real list \<Rightarrow> bool" where
  "CheckConstraints s agent =
     list_all (\<lambda>i. Check (m_constraints s ! i) (agent ! i)) [0..<length agent]"

text \<open>Lines 211 to 217: evaluate the trial and keep it when it is strictly cheaper.\<close>

definition selection :: "'g DifferentialEvolution \<Rightarrow> nat \<Rightarrow> real list \<Rightarrow> 'g DifferentialEvolution" where
  "selection s x newX =
     (let newCost = EvaluteCost (m_cost s) newX
      in if newCost < m_minCostPerAgent s ! x
         then s\<lparr>m_population := (m_population s)[x := newX],
                m_minCostPerAgent := (m_minCostPerAgent s)[x := newCost]\<rparr>
         else s)"

text \<open>
  The loop over the slots, with the local variables \<^verbatim>\<open>minCost\<close> and \<^verbatim>\<open>bestAgentIndex\<close>.
  A trial that fails the constraint check leaves \<open>x\<close> where it is (\<^verbatim>\<open>x--; continue;\<close>
  followed by the loop's \<^verbatim>\<open>x++\<close>); only the generator has advanced. Nothing bounds the
  number of such retries, so this loop too returns \<open>None\<close> when it never exits.
\<close>

partial_function (option) selection_loop ::
  "'g random_library \<Rightarrow> nat \<Rightarrow> real \<Rightarrow> nat \<Rightarrow> 'g DifferentialEvolution
     \<Rightarrow> (real \<times> nat \<times> 'g DifferentialEvolution) option"
where
  "selection_loop lib x minCost bestAgentIndex s =
     (if x < m_populationSize s then
        (case select_donors lib (m_populationSize s) (int x) (int x) (int x) (int x) (m_generator s) of
           None \<Rightarrow> None
         | Some (a, b, c, g1) \<Rightarrow>
             (let (newX, g3) = make_trial lib s x a b c g1;
                  s1 = s\<lparr>m_generator := g3\<rparr>
              in if m_shouldCheckConstraints s1 \<and> \<not> CheckConstraints s1 newX
                 then selection_loop lib x minCost bestAgentIndex s1
                 else (let s2 = selection s1 x newX
                       in if m_minCostPerAgent s2 ! x < minCost
                          then selection_loop lib (x + 1) (m_minCostPerAgent s2 ! x) x s2
                          else selection_loop lib (x + 1) minCost bestAgentIndex s2)))
      else Some (minCost, bestAgentIndex, s))"

definition SelectionAndCorssing ::
  "'g random_library \<Rightarrow> 'g DifferentialEvolution \<Rightarrow> 'g DifferentialEvolution option"
where
  "SelectionAndCorssing lib s =
     (case selection_loop lib 0 (m_minCostPerAgent s ! 0) 0 s of
        None \<Rightarrow> None
      | Some (minCost, bestAgentIndex, s') \<Rightarrow>
          Some (s'\<lparr>m_minCost := Finite minCost, m_bestAgentIndex := bestAgentIndex\<rparr>))"

subsection \<open>Optimize\<close>

text \<open>
  What \<^verbatim>\<open>Optimize\<close> writes to \<^verbatim>\<open>std::cout\<close> when \<^verbatim>\<open>verbose\<close> is set: after a generation
  the line with \<^verbatim>\<open>m_minCost\<close> and the coordinates of \<^verbatim>\<open>m_population[m_bestAgentIndex]\<close>,
  and at the end one of the two termination messages. The formatting of the numbers is
  left out.
\<close>

datatype console =
    CurrentMinimalCost min_cost "real list"
  | TerminatedByCondition
  | TerminatedByGenerations

definition print_progress :: "'g DifferentialEvolution \<Rightarrow> console" where
  "print_progress s =
     CurrentMinimalCost (m_minCost s)
       (map (\<lambda>i. m_population s ! m_bestAgentIndex s ! i) [0..<m_numberOfParameters s])"

text \<open>
  The callback and the termination condition are closures of the caller. Whatever they
  capture is the caller's state \<open>'w\<close>: the callback reads the engine and updates that state,
  the termination condition reads both, may update it too, and answers. A null
  \<^verbatim>\<open>std::function\<close> is \<open>None\<close>.
\<close>

type_synonym ('g, 'w) callback = "'g DifferentialEvolution \<Rightarrow> 'w \<Rightarrow> 'w"
type_synonym ('g, 'w) termination_condition = "'g DifferentialEvolution \<Rightarrow> 'w \<Rightarrow> bool \<times> 'w"

definition call_callback :: "('g, 'w) callback option \<Rightarrow> 'g DifferentialEvolution \<Rightarrow> 'w \<Rightarrow> 'w" where
  "call_callback callback s w = (case callback of None \<Rightarrow> w | Some f \<Rightarrow> f s w)"

text \<open>The loop \<^verbatim>\<open>for (int i = 0; i < iterations; i++)\<close> of \<^verbatim>\<open>Optimize\<close>.\<close>

function Optimize_loop ::
  "'g random_library \<Rightarrow> ('g, 'w) callback option \<Rightarrow> ('g, 'w) termination_condition option
     \<Rightarrow> int \<Rightarrow> bool \<Rightarrow> int \<Rightarrow> 'g DifferentialEvolution \<Rightarrow> 'w \<Rightarrow> console list
     \<Rightarrow> ('g DifferentialEvolution \<times> 'w \<times> console list) option"
where
  "Optimize_loop lib callback terminationCondition iterations verbose i s w out =
     (if i < iterations then
        (case SelectionAndCorssing lib s of
           None \<Rightarrow> None
         | Some s1 \<Rightarrow>
             (let out1 = (if verbose then out @ [print_progress s1] else out);
                  w1 = call_callback callback s1 w
              in case terminationCondition of
                   None \<Rightarrow>
                     Optimize_loop lib callback terminationCondition iterations verbose (i + 1) s1 w1 out1
                 | Some p \<Rightarrow>
                     (if fst (p s1 w1)
                      then Some (s1, snd (p s1 w1),
                                 if verbose then out1 @ [TerminatedByCondition] else out1)
                      else Optimize_loop lib callback terminationCondition iterations verbose
                             (i + 1) s1 (snd (p s1 w1)) out1)))
      else Some (s, w, if verbose then out @ [TerminatedByGenerations] else out))"
  by pat_completeness auto
termination
  by (relation "measure (\<lambda>(lib, callback, terminationCondition, iterations, verbose, i, s, w, out).
                  nat (iterations - i))") auto

declare Optimize_loop.simps [simp del]

definition Optimize ::
  "'g random_library \<Rightarrow> ('g, 'w) callback option \<Rightarrow> ('g, 'w) termination_condition option
     \<Rightarrow> int \<Rightarrow> bool \<Rightarrow> 'g DifferentialEvolution \<Rightarrow> 'w
     \<Rightarrow> ('g DifferentialEvolution \<times> 'w \<times> console list) option"
where
  "Optimize lib callback terminationCondition iterations verbose s w =
     Optimize_loop lib callback terminationCondition iterations verbose 0 (InitPopulation lib s) w []"

section \<open>A concrete instance\<close>

text \<open>
  A generator that replays a list of canonical draws \<open>u\<close> from \<open>[0, 1)\<close>: the draw from
  \<open>[a, b)\<close> is \<open>a + (b - a) * u\<close>, and \<open>a\<close> once the list is used up. Seeding selects the list.
\<close>

definition replay_uniform :: "real \<Rightarrow> real \<Rightarrow> real list \<Rightarrow> real \<times> real list" where
  "replay_uniform a b g =
     (case g of
        [] \<Rightarrow> (a, [])
      | u # g' \<Rightarrow> (if 0 \<le> u \<and> u < 1 then a + (b - a) * u else a, g'))"

definition initial_draws :: "real list" where
  "initial_draws = [2/4, 3/4, 1/4, 0, 0, 1/4, 1/4, 2/4]"

definition draws_123 :: "real list" where
  "draws_123 = initial_draws @
     [0, 1/4, 2/4,  1/4, 2/4, 3/4,  0,  1/2, 1/2,
      1/4, 2/4, 3/4,  0,  1/2, 19/20,
      0, 2/4, 3/4,  1/2,  19/20, 19/20,
      3/4, 1/4, 0,  0,  19/20, 19/20,
      2/4, 1/4, 0,  0,  1/2, 19/20]"

definition draws_7 :: "real list" where
  "draws_7 = initial_draws @
     [1/4, 2/4, 3/4,  0,  1/2, 1/2,
      0, 2/4, 3/4,  1/2,  19/20, 19/20,
      3/4, 1/4, 0,  0,  19/20, 19/20,
      2/4, 1/4, 0,  0,  1/2, 19/20]"

definition replay :: "real list random_library" where
  "replay = \<lparr> seed_generator = (\<lambda>randomSeed. if randomSeed = 123 then draws_123 else draws_7),
              uniform_real = replay_uniform,
              uniform_default = replay_uniform (-1) 1 \<rparr>"

text \<open>The sum of squares over two dimensions, each constrained to \<open>[0, 4]\<close>.\<close>

definition sphere :: IOptimizable where
  "sphere = \<lparr> EvaluteCost = (\<lambda>inputs. sum_list (map (\<lambda>v. v * v) inputs)),
              NumberOfParameters = 2,
              GetConstraints = replicate 2 \<lparr> lower = 0, upper = 4, isConstrained = True \<rparr> \<rparr>"

text \<open>The engine over \<open>sphere\<close> with four agents: seed 123 with the constraint check, seed 7 without.\<close>

definition engine_123 :: "real list DifferentialEvolution" where
  "engine_123 = projr (construct replay sphere 4 123 True)"

definition engine_7 :: "real list DifferentialEvolution" where
  "engine_7 = projr (construct replay sphere 4 7 False)"

section \<open>Notions used in the statements\<close>

text \<open>The recursion equations of both partial functions are also their code equations.\<close>

declare select_donors.simps [code] selection_loop.simps [code]

text \<open>One round of the donor loop: three draws from \<open>[0, N)\<close>, each truncated to an \<^verbatim>\<open>int\<close>.\<close>

definition donor_round :: "'g random_library \<Rightarrow> nat \<Rightarrow> 'g \<Rightarrow> int \<times> int \<times> int \<times> 'g" where
  "donor_round lib N g =
     (let (va, g1) = uniform_real lib 0 (real N) g;
          (vb, g2) = uniform_real lib 0 (real N) g1;
          (vc, g3) = uniform_real lib 0 (real N) g2
      in (double_to_int va, double_to_int vb, double_to_int vc, g3))"

text \<open>The condition under which the donor loop goes round again.\<close>

definition rejected :: "int \<Rightarrow> int \<times> int \<times> int \<times> 'g \<Rightarrow> bool" where
  "rejected x d = (case d of (a, b, c, g) \<Rightarrow> a = x \<or> b = x \<or> c = x \<or> a = b \<or> a = c \<or> b = c)"

text \<open>The state after \<open>k\<close> generation steps, when each of them returns.\<close>

primrec generations ::
  "'g random_library \<Rightarrow> nat \<Rightarrow> 'g DifferentialEvolution \<Rightarrow> 'g DifferentialEvolution option"
where
  "generations lib 0 s = Some s"
| "generations lib (Suc k) s =
     (case generations lib k s of None \<Rightarrow> None | Some s' \<Rightarrow> SelectionAndCorssing lib s')"

text \<open>Two engine states with the same configuration: everything the constructor fixes.\<close>

definition same_configuration :: "'g DifferentialEvolution \<Rightarrow> 'g DifferentialEvolution \<Rightarrow> bool" where
  "same_configuration s s' \<longleftrightarrow>
     m_cost s' = m_cost s \<and> m_populationSize s' = m_populationSize s \<and>
     m_F s' = m_F s \<and> m_CR s' = m_CR s \<and>
     m_numberOfParameters s' = m_numberOfParameters s \<and>
     m_shouldCheckConstraints s' = m_shouldCheckConstraints s \<and>
     m_constraints s' = m_constraints s"

text \<open>The vectors have the sizes the constructor gave them.\<close>

definition shaped :: "'g DifferentialEvolution \<Rightarrow> bool" where
  "shaped s \<longleftrightarrow>
     length (m_population s) = m_populationSize s \<and>
     length (m_minCostPerAgent s) = m_populationSize s \<and>
     (\<forall>agent\<in>set (m_population s). length agent = m_numberOfParameters s)"

text \<open>Every cached cost is the cost of the agent in its slot.\<close>

definition cache_in_sync :: "'g DifferentialEvolution \<Rightarrow> bool" where
  "cache_in_sync s \<longleftrightarrow>
     (\<forall>i<m_populationSize s.
        m_minCostPerAgent s ! i = EvaluteCost (m_cost s) (m_population s ! i))"

text \<open>Every agent of the population passes \<open>CheckConstraints\<close>.\<close>

definition within_constraints :: "'g DifferentialEvolution \<Rightarrow> bool" where
  "within_constraints s \<longleftrightarrow> (\<forall>agent\<in>set (m_population s). CheckConstraints s agent)"

text \<open>
  The forced dimension \<open>R\<close> and the vector \<open>r\<close> that \<open>make_trial\<close> draws, starting from the
  generator \<open>g1\<close> that the donor loop has left.
\<close>

definition forced_dimension :: "'g random_library \<Rightarrow> 'g DifferentialEvolution \<Rightarrow> 'g \<Rightarrow> int" where
  "forced_dimension lib s g1 =
     double_to_int (fst (uniform_real lib 0 (real (m_numberOfParameters s)) g1))"

definition crossover_draws :: "'g random_library \<Rightarrow> 'g DifferentialEvolution \<Rightarrow> 'g \<Rightarrow> real list" where
  "crossover_draws lib s g1 =
     fst (draw_r lib (m_numberOfParameters s)
            (snd (uniform_real lib 0 (real (m_numberOfParameters s)) g1)))"

text \<open>The two engines after \<open>InitPopulation\<close> and after one generation step.\<close>

definition population_123 :: "real list DifferentialEvolution" where
  "population_123 = InitPopulation replay engine_123"

definition generation_123 :: "real list DifferentialEvolution" where
  "generation_123 = the (SelectionAndCorssing replay population_123)"

definition population_7 :: "real list DifferentialEvolution" where
  "population_7 = InitPopulation replay engine_7"

definition generation_7 :: "real list DifferentialEvolution" where
  "generation_7 = the (SelectionAndCorssing replay population_7)"

text \<open>The generator of \<open>population_123\<close> after the first attempt at slot 0.\<close>

definition after_first_trial :: "real list" where
  "after_first_trial = drop 9 (m_generator population_123)"

text \<open>
  The draws of round \<open>k\<close> of the donor loop (the first round is round 0) when the loop
  starts with the generator \<open>g\<close>: each round starts with the generator the round before
  has left.
\<close>

primrec donor_rounds :: "'g random_library \<Rightarrow> nat \<Rightarrow> nat \<Rightarrow> 'g \<Rightarrow> int \<times> int \<times> int \<times> 'g" where
  "donor_rounds lib N 0 g = donor_round lib N g"
| "donor_rounds lib N (Suc k) g = donor_rounds lib N k (snd (snd (snd (donor_round lib N g))))"

text \<open>
  What \<open>Optimize\<close> does with the caller's closures after a generation that has left the
  engine in state \<open>s\<close>: the callback first, then the termination condition on the caller's
  state that the callback has left. The result is the answer (\<open>False\<close> when there is no
  termination condition) and the caller's state.
\<close>

definition observe ::
  "('g, 'w) callback option \<Rightarrow> ('g, 'w) termination_condition option
     \<Rightarrow> 'g DifferentialEvolution \<Rightarrow> 'w \<Rightarrow> bool \<times> 'w"
where
  "observe callback terminationCondition s w =
     (case terminationCondition of
        None \<Rightarrow> (False, call_callback callback s w)
      | Some p \<Rightarrow> p s (call_callback callback s w))"

text \<open>
  The caller's state after the observations of the generations 1 to \<open>k\<close> that start from
  the engine state \<open>s\<close>, and the answer of the termination condition after generation \<open>k\<close>.
\<close>

primrec caller_state ::
  "'g random_library \<Rightarrow> ('g, 'w) callback option \<Rightarrow> ('g, 'w) termination_condition option
     \<Rightarrow> nat \<Rightarrow> 'g DifferentialEvolution \<Rightarrow> 'w \<Rightarrow> 'w"
where
  "caller_state lib callback terminationCondition 0 s w = w"
| "caller_state lib callback terminationCondition (Suc k) s w =
     snd (observe callback terminationCondition (the (generations lib (Suc k) s))
            (caller_state lib callback terminationCondition k s w))"

definition answer ::
  "'g random_library \<Rightarrow> ('g, 'w) callback option \<Rightarrow> ('g, 'w) termination_condition option
     \<Rightarrow> nat \<Rightarrow> 'g DifferentialEvolution \<Rightarrow> 'w \<Rightarrow> bool"
where
  "answer lib callback terminationCondition k s w =
     fst (observe callback terminationCondition (the (generations lib k s))
            (caller_state lib callback terminationCondition (k - 1) s w))"

text \<open>The progress lines of the generations 1 to \<open>k\<close>.\<close>

primrec progress_lines :: "'g random_library \<Rightarrow> nat \<Rightarrow> 'g DifferentialEvolution \<Rightarrow> console list" where
  "progress_lines lib 0 s = []"
| "progress_lines lib (Suc k) s =
     progress_lines lib k s @ [print_progress (the (generations lib (Suc k) s))]"

text \<open>
  A callback that counts the generations in the caller's state, and a termination
  condition that holds when the best cost is below 2.
\<close>

definition count_generations :: "(real list, nat) callback" where
  "count_generations s w = w + 1"

definition cost_below_2 :: "(real list, nat) termination_condition" where
  "cost_below_2 s w = (GetBestCost s < 2, w)"




section \<open>Construction\<close>

lemma construct_Inr_iff:
  "construct lib costFunction populationSize randomSeed chk = Inr s \<longleftrightarrow>
     4 \<le> populationSize \<and>
     s = \<lparr> m_cost = costFunction, m_populationSize = populationSize, m_F = 0.8, m_CR = 0.9,
           m_numberOfParameters = NumberOfParameters costFunction,
           m_shouldCheckConstraints = chk, m_generator = seed_generator lib randomSeed,
           m_population = replicate populationSize (replicate (NumberOfParameters costFunction) 0),
           m_minCostPerAgent = replicate populationSize 0,
           m_constraints = GetConstraints costFunction,
           m_bestAgentIndex = 0, m_minCost = MinusInfinity \<rparr>"
  by (auto simp: construct_def)

lemma construct_123: "construct replay sphere 4 123 True = Inr engine_123"
  by (simp add: engine_123_def construct_def)

lemma construct_7: "construct replay sphere 4 7 False = Inr engine_7"
  by (simp add: engine_7_def construct_def)

text \<open>
  C6. Constructing the optimizer with a population of fewer than four agents fails: the
  assertion of the constructor does not hold and no engine is returned.
\<close>

theorem construct_small_population_fails:
  "populationSize < 4 \<Longrightarrow>
     construct lib costFunction populationSize randomSeed shouldCheckConstraints = Inl AssertionFailed"
  by (simp add: construct_def)

theorem construct_small_population_fails_witness:
  "(3::nat) < 4 \<and> construct replay sphere 3 123 True = Inl AssertionFailed"
  using construct_small_population_fails [of 3 replay sphere 123 True] by simp

text \<open>
  C10. On an engine that has been constructed and not yet initialised the accessors read
  inside the vectors and return the defaults: the best index is 0, the population and the
  cost cache are filled with zeros, \<open>GetBestAgent\<close> is a vector of \<open>NumberOfParameters\<close>
  zeros and \<open>GetBestCost\<close> is 0.
\<close>

theorem accessors_after_construction:
  assumes "construct lib costFunction populationSize randomSeed shouldCheckConstraints = Inr s"
  shows "m_bestAgentIndex s = 0
       \<and> m_bestAgentIndex s < length (m_population s)
       \<and> m_bestAgentIndex s < length (m_minCostPerAgent s)
       \<and> m_population s = replicate populationSize (replicate (NumberOfParameters costFunction) 0)
       \<and> m_minCostPerAgent s = replicate populationSize 0
       \<and> GetBestAgent s = replicate (NumberOfParameters costFunction) 0
       \<and> GetBestCost s = 0"
  using assms by (auto simp: construct_Inr_iff GetBestAgent_def GetBestCost_def)

theorem accessors_after_construction_witness:
  "construct replay sphere 4 123 True = Inr engine_123
     \<and> GetBestAgent engine_123 = [0, 0] \<and> GetBestCost engine_123 = 0"
  using accessors_after_construction [OF construct_123] construct_123
  by (simp add: sphere_def numeral_2_eq_2)

section \<open>Filling a vector in index order\<close>

lemma fold_update_upt:
  "k \<le> length xs \<Longrightarrow> fold (\<lambda>i ys. ys[i := f i]) [0..<k] xs = map f [0..<k] @ drop k xs"
proof (induction k)
  case 0
  then show ?case by simp
next
  case (Suc k)
  then have "fold (\<lambda>i ys. ys[i := f i]) [0..<Suc k] xs = (map f [0..<k] @ drop k xs)[k := f k]"
    by simp
  also have "\<dots> = map f [0..<k] @ (drop k xs)[0 := f k]"
    by (simp add: list_update_append)
  also have "drop k xs = xs ! k # drop (Suc k) xs"
    using Suc.prems by (simp add: Cons_nth_drop_Suc)
  finally show ?case by simp
qed

lemma fold_update_all:
  "length xs = n \<Longrightarrow> fold (\<lambda>i ys. ys[i := f i]) [0..<n] xs = map f [0..<n]"
  by (simp add: fold_update_upt)

lemma mutate_eq:
  "mutate s a b c =
     map (\<lambda>i. m_population s ! nat a ! i
                + m_F s * (m_population s ! nat b ! i - m_population s ! nat c ! i))
       [0..<m_numberOfParameters s]"
  unfolding mutate_def by (rule fold_update_all) simp

lemma crossing_eq:
  "crossing s x z R r =
     map (\<lambda>i. if r ! i < m_CR s \<or> int i = R then z ! i else m_population s ! x ! i)
       [0..<m_numberOfParameters s]"
proof -
  have "crossing s x z R r =
          fold (\<lambda>i newX. newX[i := (if r ! i < m_CR s \<or> int i = R then z ! i
                                      else m_population s ! x ! i)])
            [0..<m_numberOfParameters s] (replicate (m_numberOfParameters s) 0)"
    unfolding crossing_def by (rule arg_cong[where f = "\<lambda>f. fold f _ _"]) (auto intro!: ext)
  then show ?thesis by (simp add: fold_update_all)
qed

lemma length_make_trial: "length (fst (make_trial lib s x a b c g)) = m_numberOfParameters s"
  by (simp add: make_trial_def crossing_eq Let_def split: prod.splits)

lemma fold_draw:
  assumes "fold (\<lambda>i (ys, h). let (v, h') = d i h in (ys[i := v], h')) [0..<k] (xs0, g0) = (xs, g)"
  shows "length xs = length xs0
       \<and> (\<forall>i<k. i < length xs0 \<longrightarrow> (\<exists>h. xs ! i = fst (d i h)))
       \<and> (\<forall>i\<ge>k. xs ! i = xs0 ! i)"
  using assms
proof (induction k arbitrary: xs g)
  case 0
  then show ?case by simp
next
  case (Suc k)
  obtain ys h where p: "fold (\<lambda>i (ys, h). let (v, h') = d i h in (ys[i := v], h')) [0..<k] (xs0, g0) = (ys, h)"
    by (cases "fold (\<lambda>i (ys, h). let (v, h') = d i h in (ys[i := v], h')) [0..<k] (xs0, g0)") auto
  from Suc.IH[OF p] have len: "length ys = length xs0"
    and before: "\<forall>i<k. i < length xs0 \<longrightarrow> (\<exists>h. ys ! i = fst (d i h))"
    and after: "\<forall>i\<ge>k. ys ! i = xs0 ! i" by auto
  from Suc.prems p have xs: "xs = ys[k := fst (d k h)]"
    by (auto simp: Let_def split: prod.splits)
  show ?case
  proof (intro conjI allI impI)
    show "length xs = length xs0" using xs len by simp
  next
    fix i assume "i < Suc k" "i < length xs0"
    then show "\<exists>h. xs ! i = fst (d i h)"
      using xs len before by (cases "i = k") auto
  next
    fix i assume "Suc k \<le> i"
    then show "xs ! i = xs0 ! i" using xs after by simp
  qed
qed

lemma fold_agents:
  assumes "fold (\<lambda>k (pop, h). let (agent, h') = F (pop ! k, h) in (pop[k := agent], h'))
             [0..<m] (pop0, g0) = (pop, g)"
  shows "length pop = length pop0
       \<and> (\<forall>k<m. k < length pop0 \<longrightarrow> (\<exists>h. pop ! k = fst (F (pop0 ! k, h))))
       \<and> (\<forall>k\<ge>m. pop ! k = pop0 ! k)"
  using assms
proof (induction m arbitrary: pop g)
  case 0
  then show ?case by simp
next
  case (Suc m)
  let ?step = "\<lambda>k (pop, h). let (agent, h') = F (pop ! k, h) in (pop[k := agent], h')"
  obtain ys h where p: "fold ?step [0..<m] (pop0, g0) = (ys, h)"
    by (cases "fold ?step [0..<m] (pop0, g0)") auto
  from Suc.IH[OF p] have len: "length ys = length pop0"
    and before: "\<forall>k<m. k < length pop0 \<longrightarrow> (\<exists>h. ys ! k = fst (F (pop0 ! k, h)))"
    and after: "\<forall>k\<ge>m. ys ! k = pop0 ! k" by auto
  from Suc.prems p have pop: "pop = ys[m := fst (F (ys ! m, h))]"
    by (auto simp: Let_def split: prod.splits)
  from after have ym: "ys ! m = pop0 ! m" by simp
  show ?case
  proof (intro conjI allI impI)
    show "length pop = length pop0" using pop len by simp
  next
    fix k assume "k < Suc m" "k < length pop0"
    then show "\<exists>h. pop ! k = fst (F (pop0 ! k, h))"
      using pop len before ym by (cases "k = m") auto
  next
    fix k assume "Suc m \<le> k"
    then show "pop ! k = pop0 ! k" using pop after by simp
  qed
qed

lemma init_agent_result:
  assumes "init_agent lib cs n (agent0, g0) = (agent, g)"
  shows "length agent = length agent0"
    and "\<And>i. i < n \<Longrightarrow> i < length agent0 \<Longrightarrow> \<exists>h. agent ! i = fst (draw_initial lib cs i h)"
  using fold_draw[OF assms[unfolded init_agent_def]] by auto

lemma init_agents_result:
  assumes "init_agents lib cs n (pop0, g0) = (pop, g)"
    and "\<forall>agent\<in>set pop0. length agent = n"
  shows "length pop = length pop0"
    and "\<And>k. k < length pop0 \<Longrightarrow> length (pop ! k) = n"
    and "\<And>k i. k < length pop0 \<Longrightarrow> i < n \<Longrightarrow> \<exists>h. pop ! k ! i = fst (draw_initial lib cs i h)"
proof -
  note r = fold_agents[OF assms(1)[unfolded init_agents_def fst_conv]]
  show "length pop = length pop0" using r by simp
  fix k assume k: "k < length pop0"
  with r obtain h where h: "pop ! k = fst (init_agent lib cs n (pop0 ! k, h))" by blast
  obtain agent g' where a: "init_agent lib cs n (pop0 ! k, h) = (agent, g')"
    by (cases "init_agent lib cs n (pop0 ! k, h)") auto
  from k assms(2) have l0: "length (pop0 ! k) = n" by simp
  from init_agent_result(1)[OF a] h a l0 show "length (pop ! k) = n" by simp
  fix i assume "i < n"
  with init_agent_result(2)[OF a, of i] h a l0
  show "\<exists>h. pop ! k ! i = fst (draw_initial lib cs i h)" by simp
qed

lemma fold_init_cost:
  "\<exists>cs mc bi. fold init_cost [0..<k] s = s\<lparr>m_minCostPerAgent := cs, m_bestAgentIndex := bi, m_minCost := mc\<rparr>
      \<and> length cs = length (m_minCostPerAgent s)
      \<and> (\<forall>i<k. i < length (m_minCostPerAgent s) \<longrightarrow> cs ! i = EvaluteCost (m_cost s) (m_population s ! i))
      \<and> (\<forall>i\<ge>k. cs ! i = m_minCostPerAgent s ! i)
      \<and> (m_minCost s = MinusInfinity \<longrightarrow> mc = MinusInfinity \<and> bi = m_bestAgentIndex s)"
proof (induction k)
  case 0
  show ?case
    by (rule exI[of _ "m_minCostPerAgent s"], rule exI[of _ "m_minCost s"],
        rule exI[of _ "m_bestAgentIndex s"]) simp
next
  case (Suc k)
  then obtain cs mc bi where
    f: "fold init_cost [0..<k] s = s\<lparr>m_minCostPerAgent := cs, m_bestAgentIndex := bi, m_minCost := mc\<rparr>"
    and len: "length cs = length (m_minCostPerAgent s)"
    and before: "\<forall>i<k. i < length (m_minCostPerAgent s) \<longrightarrow> cs ! i = EvaluteCost (m_cost s) (m_population s ! i)"
    and after: "\<forall>i\<ge>k. cs ! i = m_minCostPerAgent s ! i"
    and inf: "m_minCost s = MinusInfinity \<longrightarrow> mc = MinusInfinity \<and> bi = m_bestAgentIndex s"
    by blast
  let ?v = "EvaluteCost (m_cost s) (m_population s ! k)"
  let ?cs = "cs[k := ?v]"
  let ?upd = "less_min_cost (?cs ! k) mc"
  have "fold init_cost [0..<Suc k] s =
          s\<lparr>m_minCostPerAgent := ?cs,
            m_bestAgentIndex := (if ?upd then k else bi),
            m_minCost := (if ?upd then Finite (?cs ! k) else mc)\<rparr>"
    using f by (simp add: init_cost_def Let_def)
  moreover have "length ?cs = length (m_minCostPerAgent s)" using len by simp
  moreover have "\<forall>i<Suc k. i < length (m_minCostPerAgent s) \<longrightarrow> ?cs ! i = EvaluteCost (m_cost s) (m_population s ! i)"
    using before len by (auto simp: nth_list_update less_Suc_eq)
  moreover have "\<forall>i\<ge>Suc k. ?cs ! i = m_minCostPerAgent s ! i" using after by simp
  moreover have "m_minCost s = MinusInfinity \<longrightarrow>
      (if ?upd then Finite (?cs ! k) else mc) = MinusInfinity \<and> (if ?upd then k else bi) = m_bestAgentIndex s"
    using inf by auto
  ultimately show ?case by blast
qed

section \<open>Invariant rules for the donor loop and the slot loop\<close>


lemma selection_loop_rule:
  assumes run: "selection_loop lib x minCost best s = Some y"
    and init: "I x minCost best s"
    and step: "\<And>x m b s a b' c g1 newX g3.
       \<lbrakk>I x m b s; x < m_populationSize s;
        select_donors lib (m_populationSize s) (int x) (int x) (int x) (int x) (m_generator s)
          = Some (a, b', c, g1);
        make_trial lib s x a b' c g1 = (newX, g3)\<rbrakk>
       \<Longrightarrow> (if m_shouldCheckConstraints s \<and> \<not> CheckConstraints (s\<lparr>m_generator := g3\<rparr>) newX
            then I x m b (s\<lparr>m_generator := g3\<rparr>)
            else (let s2 = selection (s\<lparr>m_generator := g3\<rparr>) x newX
                  in if m_minCostPerAgent s2 ! x < m then I (x + 1) (m_minCostPerAgent s2 ! x) x s2
                     else I (x + 1) m b s2))"
  shows "\<exists>x'. I x' (fst y) (fst (snd y)) (snd (snd y)) \<and> \<not> x' < m_populationSize (snd (snd y))"
proof -
  let ?Q = "\<lambda>y. \<exists>x'. I x' (fst y) (fst (snd y)) (snd (snd y)) \<and> \<not> x' < m_populationSize (snd (snd y))"
  let ?P = "\<lambda>lib' x m b s y. lib' = lib \<longrightarrow> I x m b s \<longrightarrow> ?Q y"
  have "?P lib x minCost best s y"
  proof (rule selection_loop.raw_induct
           [where P = ?P and xa = "((((lib, x), minCost), best), s)" and y = y, unfolded prod.case])
    show "selection_loop lib x minCost best s = Some y" by (rule run)
  next
    fix f :: "'a random_library \<Rightarrow> nat \<Rightarrow> real \<Rightarrow> nat \<Rightarrow> 'a DifferentialEvolution
                \<Rightarrow> (real \<times> nat \<times> 'a DifferentialEvolution) option"
    fix lib' x m b s y
    assume IH: "\<And>lib' x m b s y. f lib' x m b s = Some y \<Longrightarrow> ?P lib' x m b s y"
    assume body: "(if x < m_populationSize s
      then case select_donors lib' (m_populationSize s) (int x) (int x) (int x) (int x) (m_generator s) of
           None \<Rightarrow> None
           | Some (a, b', c, g1) \<Rightarrow>
               let (newX, g3) = make_trial lib' s x a b' c g1;
                   s1 = s\<lparr>m_generator := g3\<rparr>
               in if m_shouldCheckConstraints s1 \<and> \<not> CheckConstraints s1 newX
                  then f lib' x m b s1
                  else let s2 = selection s1 x newX
                       in if m_minCostPerAgent s2 ! x < m
                          then f lib' (x + 1) (m_minCostPerAgent s2 ! x) x s2
                          else f lib' (x + 1) m b s2
      else Some (m, b, s)) = Some y"
    show "?P lib' x m b s y"
    proof (intro impI)
      assume l: "lib' = lib" and i: "I x m b s"
      show "?Q y"
      proof (cases "x < m_populationSize s")
        case False
        with body have "y = (m, b, s)" by simp
        with i False show ?thesis by auto
      next
        case True
        with body obtain a b' c g1 where
          d: "select_donors lib (m_populationSize s) (int x) (int x) (int x) (int x) (m_generator s)
                = Some (a, b', c, g1)"
          unfolding l by (auto split: option.splits)
        obtain newX g3 where t: "make_trial lib s x a b' c g1 = (newX, g3)"
          by (cases "make_trial lib s x a b' c g1") auto
        note st = step[OF i True d t]
        let ?s1 = "s\<lparr>m_generator := g3\<rparr>"
        show ?thesis
        proof (cases "m_shouldCheckConstraints s \<and> \<not> CheckConstraints ?s1 newX")
          case True
          with body \<open>x < m_populationSize s\<close> d t l have "f lib x m b ?s1 = Some y" by simp
          from IH[OF this] st True show ?thesis by simp
        next
          case False
          let ?s2 = "selection ?s1 x newX"
          show ?thesis
          proof (cases "m_minCostPerAgent ?s2 ! x < m")
            case True
            with False body \<open>x < m_populationSize s\<close> d t l
            have "f lib (x + 1) (m_minCostPerAgent ?s2 ! x) x ?s2 = Some y"
              by (auto simp: Let_def split: if_splits)
            from IH[OF this] st True False show ?thesis by (auto simp: Let_def split: if_splits)
          next
            case nl: False
            with False body \<open>x < m_populationSize s\<close> d t l
            have "f lib (x + 1) m b ?s2 = Some y"
              by (auto simp: Let_def split: if_splits)
            from IH[OF this] st nl False show ?thesis by (auto simp: Let_def split: if_splits)
          qed
        qed
      qed
    qed
  qed
  with init show ?thesis by simp
qed

section \<open>InitPopulation on a constructed engine\<close>

lemma InitPopulation_constructed:
  assumes c: "construct lib costFunction N randomSeed chk = Inr s0"
  defines "s \<equiv> InitPopulation lib s0"
  shows "same_configuration s0 s" and "shaped s" and "cache_in_sync s"
    and "m_minCost s = MinusInfinity" and "m_bestAgentIndex s = 0"
    and "\<And>k i. k < N \<Longrightarrow> i < NumberOfParameters costFunction \<Longrightarrow>
           \<exists>h. m_population s ! k ! i = fst (draw_initial lib (GetConstraints costFunction) i h)"
proof -
  let ?n = "NumberOfParameters costFunction"
  let ?cs = "GetConstraints costFunction"
  from c have f: "m_cost s0 = costFunction" "m_populationSize s0 = N" "m_numberOfParameters s0 = ?n"
    "m_constraints s0 = ?cs" "m_population s0 = replicate N (replicate ?n 0)"
    "m_minCostPerAgent s0 = replicate N 0" "m_minCost s0 = MinusInfinity" "m_bestAgentIndex s0 = 0"
    by (auto simp: construct_Inr_iff)
  obtain pop g where ia: "init_agents lib ?cs ?n (m_population s0, m_generator s0) = (pop, g)"
    by (cases "init_agents lib ?cs ?n (m_population s0, m_generator s0)") auto
  have "\<forall>agent\<in>set (m_population s0). length agent = ?n" by (simp add: f)
  note r = init_agents_result[OF ia this]
  let ?s1 = "s0\<lparr>m_population := pop, m_generator := g\<rparr>"
  from fold_init_cost[of N ?s1] obtain cs mc bi where
    fc: "fold init_cost [0..<N] ?s1 = ?s1\<lparr>m_minCostPerAgent := cs, m_bestAgentIndex := bi, m_minCost := mc\<rparr>"
    and len: "length cs = length (m_minCostPerAgent ?s1)"
    and ev: "\<forall>i<N. i < length (m_minCostPerAgent ?s1) \<longrightarrow> cs ! i = EvaluteCost (m_cost ?s1) (m_population ?s1 ! i)"
    and inf: "m_minCost ?s1 = MinusInfinity \<longrightarrow> mc = MinusInfinity \<and> bi = m_bestAgentIndex ?s1"
    by blast
  have s: "s = ?s1\<lparr>m_minCostPerAgent := cs, m_bestAgentIndex := bi, m_minCost := mc\<rparr>"
    using ia fc by (simp add: s_def InitPopulation_def f)
  show "same_configuration s0 s" by (simp add: s same_configuration_def)
  show "shaped s"
    using r(1) r(2) len by (auto simp: s shaped_def f in_set_conv_nth)
  show "cache_in_sync s" using ev by (simp add: s cache_in_sync_def f)
  show "m_minCost s = MinusInfinity" using inf by (simp add: s f)
  show "m_bestAgentIndex s = 0" using inf by (simp add: s f)
  fix k i assume "k < N" "i < ?n"
  then show "\<exists>h. m_population s ! k ! i = fst (draw_initial lib ?cs i h)"
    using r(3)[of k i] by (simp add: s f)
qed

lemma Check_draw_initial:
  assumes "uniform_in_range lib" and "isConstrained (cs ! i) \<longrightarrow> lower (cs ! i) \<le> upper (cs ! i)"
  shows "Check (cs ! i) (fst (draw_initial lib cs i h))"
  using assms by (auto simp: Check_def draw_initial_def uniform_in_range_def)

lemma InitPopulation_within_constraints:
  assumes c: "construct lib costFunction N randomSeed chk = Inr s0"
    and u: "uniform_in_range lib"
    and wf: "\<forall>i<NumberOfParameters costFunction.
               isConstrained (GetConstraints costFunction ! i) \<longrightarrow>
               lower (GetConstraints costFunction ! i) \<le> upper (GetConstraints costFunction ! i)"
  shows "within_constraints (InitPopulation lib s0)"
proof -
  let ?s = "InitPopulation lib s0"
  note ip = InitPopulation_constructed[OF c]
  from c have f: "m_populationSize s0 = N" "m_numberOfParameters s0 = NumberOfParameters costFunction"
    "m_constraints s0 = GetConstraints costFunction"
    by (auto simp: construct_Inr_iff)
  from ip(1) f have g: "m_populationSize ?s = N" "m_numberOfParameters ?s = NumberOfParameters costFunction"
    "m_constraints ?s = GetConstraints costFunction"
    by (auto simp: same_configuration_def)
  show ?thesis
    unfolding within_constraints_def
  proof
    fix agent assume "agent \<in> set (m_population ?s)"
    then obtain k where k: "k < length (m_population ?s)" "agent = m_population ?s ! k"
      by (auto simp: in_set_conv_nth)
    with ip(2) g have kN: "k < N" and la: "length agent = NumberOfParameters costFunction"
      by (auto simp: shaped_def)
    show "CheckConstraints ?s agent"
      unfolding CheckConstraints_def list_all_iff
    proof
      fix i assume "i \<in> set [0..<length agent]"
      with la have i: "i < NumberOfParameters costFunction" by simp
      from ip(6)[OF kN i] obtain h where
        "m_population ?s ! k ! i = fst (draw_initial lib (GetConstraints costFunction) i h)" ..
      with Check_draw_initial[OF u, of "GetConstraints costFunction" i h] wf i k g
      show "Check (m_constraints ?s ! i) (agent ! i)" by simp
    qed
  qed
qed

section \<open>Selection and the loop over the slots\<close>

lemma selection_cases:
  "selection s x newX = s \<and> \<not> EvaluteCost (m_cost s) newX < m_minCostPerAgent s ! x
   \<or> selection s x newX =
        s\<lparr>m_population := (m_population s)[x := newX],
          m_minCostPerAgent := (m_minCostPerAgent s)[x := EvaluteCost (m_cost s) newX]\<rparr>
     \<and> EvaluteCost (m_cost s) newX < m_minCostPerAgent s ! x"
  by (simp add: selection_def Let_def)

lemma selection_same_configuration: "same_configuration s (selection s x newX)"
  using selection_cases[of s x newX] by (auto simp: same_configuration_def)

lemma selection_shaped:
  "shaped s \<Longrightarrow> length newX = m_numberOfParameters s \<Longrightarrow> shaped (selection s x newX)"
  using selection_cases[of s x newX]
  by (auto simp: shaped_def dest!: set_update_subset_insert[THEN subsetD])

lemma selection_cache:
  "shaped s \<Longrightarrow> cache_in_sync s \<Longrightarrow> cache_in_sync (selection s x newX)"
  using selection_cases[of s x newX]
  by (cases "x < m_populationSize s")
     (auto simp: shaped_def cache_in_sync_def nth_list_update list_update_beyond)

lemma selection_cost_le:
  "m_minCostPerAgent (selection s x newX) ! i \<le> m_minCostPerAgent s ! i"
  using selection_cases[of s x newX]
  by (cases "x < length (m_minCostPerAgent s)") (auto simp: nth_list_update list_update_beyond)

lemma selection_within_constraints:
  "within_constraints s \<Longrightarrow> CheckConstraints s newX \<Longrightarrow> within_constraints (selection s x newX)"
  using selection_cases[of s x newX]
  by (auto simp: within_constraints_def CheckConstraints_def
           dest!: set_update_subset_insert[THEN subsetD])

lemma same_configuration_refl: "same_configuration s s"
  by (simp add: same_configuration_def)

lemma same_configuration_trans:
  "same_configuration s t \<Longrightarrow> same_configuration t u \<Longrightarrow> same_configuration s u"
  by (simp add: same_configuration_def)

lemma selection_loop_shaped:
  assumes run: "selection_loop lib x m b (s::'a DifferentialEvolution) = Some (m', b', s')" and sh: "shaped s"
  shows "same_configuration s s' \<and> shaped s'"
proof -
  let ?I = "\<lambda>(x::nat) (m::real) (b::nat) (t::'a DifferentialEvolution). same_configuration s t \<and> shaped t"
  have "\<exists>x'. ?I x' (fst (m', b', s')) (fst (snd (m', b', s'))) (snd (snd (m', b', s')))
            \<and> \<not> x' < m_populationSize (snd (snd (m', b', s')))"
  proof (rule selection_loop_rule[where I = ?I, OF run])
    show "?I x m b s" using sh by (simp add: same_configuration_refl)
  next
    fix x m b t a b' c g1 newX g3
    assume i: "?I x m b t" and t: "make_trial lib t x a b' c g1 = (newX, g3)"
    let ?t1 = "t\<lparr>m_generator := g3\<rparr>"
    from i have c1: "same_configuration s ?t1" and s1: "shaped ?t1"
      by (auto simp: same_configuration_def shaped_def)
    from length_make_trial[of lib t x a b' c g1] t
    have "length newX = m_numberOfParameters ?t1" by simp
    from selection_shaped[OF s1 this, of x]
      same_configuration_trans[OF c1 selection_same_configuration[of ?t1 x newX]] c1 s1
    show "if m_shouldCheckConstraints t \<and> \<not> CheckConstraints ?t1 newX then ?I x m b ?t1
          else (let s2 = selection ?t1 x newX
                in if m_minCostPerAgent s2 ! x < m then ?I (x + 1) (m_minCostPerAgent s2 ! x) x s2
                   else ?I (x + 1) m b s2)"
      by (simp add: Let_def)
  qed
  then show ?thesis by simp
qed

lemma selection_loop_cache:
  assumes run: "selection_loop lib x m b (s::'a DifferentialEvolution) = Some (m', b', s')"
    and sh: "shaped s" and ca: "cache_in_sync s"
  shows "cache_in_sync s'"
proof -
  let ?I = "\<lambda>(x::nat) (m::real) (b::nat) (t::'a DifferentialEvolution). shaped t \<and> cache_in_sync t"
  have "\<exists>x'. ?I x' (fst (m', b', s')) (fst (snd (m', b', s'))) (snd (snd (m', b', s')))
            \<and> \<not> x' < m_populationSize (snd (snd (m', b', s')))"
  proof (rule selection_loop_rule[where I = ?I, OF run])
    show "?I x m b s" using sh ca by simp
  next
    fix x m b t a b' c g1 newX g3
    assume i: "?I x m b t" and t: "make_trial lib t x a b' c g1 = (newX, g3)"
    let ?t1 = "t\<lparr>m_generator := g3\<rparr>"
    from i have s1: "shaped ?t1" and c1: "cache_in_sync ?t1"
      by (auto simp: cache_in_sync_def shaped_def)
    from length_make_trial[of lib t x a b' c g1] t
    have "length newX = m_numberOfParameters ?t1" by simp
    from selection_shaped[OF s1 this, of x] selection_cache[OF s1 c1, of x newX] c1 s1
    show "if m_shouldCheckConstraints t \<and> \<not> CheckConstraints ?t1 newX then ?I x m b ?t1
          else (let s2 = selection ?t1 x newX
                in if m_minCostPerAgent s2 ! x < m then ?I (x + 1) (m_minCostPerAgent s2 ! x) x s2
                   else ?I (x + 1) m b s2)"
      by (simp add: Let_def)
  qed
  then show ?thesis by simp
qed

lemma selection_loop_cost_le:
  assumes run: "selection_loop lib x m b (s::'a DifferentialEvolution) = Some (m', b', s')"
  shows "m_minCostPerAgent s' ! i \<le> m_minCostPerAgent s ! i"
proof -
  let ?I = "\<lambda>(x::nat) (m::real) (b::nat) (t::'a DifferentialEvolution). m_minCostPerAgent t ! i \<le> m_minCostPerAgent s ! i"
  have "\<exists>x'. ?I x' (fst (m', b', s')) (fst (snd (m', b', s'))) (snd (snd (m', b', s')))
            \<and> \<not> x' < m_populationSize (snd (snd (m', b', s')))"
  proof (rule selection_loop_rule[where I = ?I, OF run])
    show "?I x m b s" by simp
  next
    fix x m b t a b' c g1 newX g3
    assume i: "?I x m b t"
    let ?t1 = "t\<lparr>m_generator := g3\<rparr>"
    from selection_cost_le[of ?t1 x newX i] i
    show "if m_shouldCheckConstraints t \<and> \<not> CheckConstraints ?t1 newX then ?I x m b ?t1
          else (let s2 = selection ?t1 x newX
                in if m_minCostPerAgent s2 ! x < m then ?I (x + 1) (m_minCostPerAgent s2 ! x) x s2
                   else ?I (x + 1) m b s2)"
      by (simp add: Let_def)
  qed
  then show ?thesis by simp
qed

lemma selection_loop_within_constraints:
  assumes run: "selection_loop lib x m b (s::'a DifferentialEvolution) = Some (m', b', s')"
    and chk: "m_shouldCheckConstraints s" and wc: "within_constraints s"
  shows "within_constraints s'"
proof -
  let ?I = "\<lambda>(x::nat) (m::real) (b::nat) (t::'a DifferentialEvolution). m_shouldCheckConstraints t \<and> within_constraints t"
  have "\<exists>x'. ?I x' (fst (m', b', s')) (fst (snd (m', b', s'))) (snd (snd (m', b', s')))
            \<and> \<not> x' < m_populationSize (snd (snd (m', b', s')))"
  proof (rule selection_loop_rule[where I = ?I, OF run])
    show "?I x m b s" using chk wc by simp
  next
    fix x m b t a b' c g1 newX g3
    assume i: "?I x m b t"
    let ?t1 = "t\<lparr>m_generator := g3\<rparr>"
    from i have k1: "m_shouldCheckConstraints ?t1" and w1: "within_constraints ?t1"
      by (auto simp: within_constraints_def CheckConstraints_def)
    have k2: "m_shouldCheckConstraints (selection ?t1 x newX)"
      using selection_same_configuration[of ?t1 x newX] k1 by (simp add: same_configuration_def)
    from selection_within_constraints[OF w1, of newX x] k1 w1 k2 i
    show "if m_shouldCheckConstraints t \<and> \<not> CheckConstraints ?t1 newX then ?I x m b ?t1
          else (let s2 = selection ?t1 x newX
                in if m_minCostPerAgent s2 ! x < m then ?I (x + 1) (m_minCostPerAgent s2 ! x) x s2
                   else ?I (x + 1) m b s2)"
      by (auto simp: Let_def)
  qed
  then show ?thesis by simp
qed

lemma selection_loop_best:
  assumes run: "selection_loop lib 0 (m_minCostPerAgent s ! 0) 0 (s::'a DifferentialEvolution) = Some (m', b', s')"
    and sh: "shaped s" and pos: "0 < m_populationSize s"
  shows "b' < m_populationSize s' \<and> m' = m_minCostPerAgent s' ! b'
       \<and> (\<forall>j<m_populationSize s'. m' \<le> m_minCostPerAgent s' ! j)"
proof -
  let ?N = "m_populationSize s"
  let ?I = "\<lambda>(x::nat) (m::real) (b::nat) (t::'a DifferentialEvolution).
              shaped t \<and> m_populationSize t = ?N \<and> x \<le> ?N \<and> (b < x \<or> x = 0 \<and> b = 0)
              \<and> m = m_minCostPerAgent t ! b \<and> (\<forall>j<x. m \<le> m_minCostPerAgent t ! j)"
  have "\<exists>x'. ?I x' (fst (m', b', s')) (fst (snd (m', b', s'))) (snd (snd (m', b', s')))
            \<and> \<not> x' < m_populationSize (snd (snd (m', b', s')))"
  proof (rule selection_loop_rule[where I = ?I, OF run])
    show "?I 0 (m_minCostPerAgent s ! 0) 0 s" using sh by simp
  next
    fix x m b and t :: "'a DifferentialEvolution" and a b' c g1 newX g3
    assume i: "?I x m b t" and xN: "x < m_populationSize t"
      and t: "make_trial lib t x a b' c g1 = (newX, g3)"
    let ?t1 = "t\<lparr>m_generator := g3\<rparr>"
    let ?s2 = "selection ?t1 x newX"
    from i have i1: "?I x m b ?t1" by (auto simp: shaped_def)
    from length_make_trial[of lib t x a b' c g1] t
    have ln: "length newX = m_numberOfParameters ?t1" by simp
    from i1 have sh1: "shaped ?t1" by simp
    have sh2: "shaped ?s2" by (rule selection_shaped[OF sh1 ln])
    have N2: "m_populationSize ?s2 = ?N"
      using selection_same_configuration[of ?t1 x newX] i by (simp add: same_configuration_def)
    from i xN have xl: "x < length (m_minCostPerAgent ?t1)" by (simp add: shaped_def)
    have other: "\<And>j. j \<noteq> x \<Longrightarrow> m_minCostPerAgent ?s2 ! j = m_minCostPerAgent ?t1 ! j"
      using selection_cases[of ?t1 x newX] by auto
    have le: "m_minCostPerAgent ?s2 ! x \<le> m_minCostPerAgent ?t1 ! x"
      by (rule selection_cost_le)
    have keep_lt: "?I (x + 1) (m_minCostPerAgent ?s2 ! x) x ?s2"
      if lt: "m_minCostPerAgent ?s2 ! x < m"
    proof -
      have "\<forall>j<x + 1. m_minCostPerAgent ?s2 ! x \<le> m_minCostPerAgent ?s2 ! j"
      proof (intro allI impI)
        fix j assume "j < x + 1"
        show "m_minCostPerAgent ?s2 ! x \<le> m_minCostPerAgent ?s2 ! j"
        proof (cases "j = x")
          case True then show ?thesis by simp
        next
          case False
          with \<open>j < x + 1\<close> have "j < x" by simp
          with i1 have "m \<le> m_minCostPerAgent ?t1 ! j" by blast
          with other[OF False] lt show ?thesis by simp
        qed
      qed
      with sh2 N2 i xN show ?thesis by simp
    qed
    have keep_ge: "?I (x + 1) m b ?s2" if ge: "\<not> m_minCostPerAgent ?s2 ! x < m"
    proof -
      have mb: "m = m_minCostPerAgent ?s2 ! b"
      proof (cases "b = x")
        case True
        with i1 le ge show ?thesis by simp
      next
        case False
        with other[OF False] i1 show ?thesis by simp
      qed
      have "\<forall>j<x + 1. m \<le> m_minCostPerAgent ?s2 ! j"
      proof (intro allI impI)
        fix j assume "j < x + 1"
        show "m \<le> m_minCostPerAgent ?s2 ! j"
        proof (cases "j = x")
          case True with ge show ?thesis by simp
        next
          case False
          with \<open>j < x + 1\<close> have "j < x" by simp
          with i1 have "m \<le> m_minCostPerAgent ?t1 ! j" by blast
          with other[OF False] show ?thesis by simp
        qed
      qed
      moreover from i1 have "b < x + 1" by auto
      ultimately show ?thesis using sh2 N2 i xN mb by simp
    qed
    show "if m_shouldCheckConstraints t \<and> \<not> CheckConstraints ?t1 newX then ?I x m b ?t1
          else (let s2 = selection ?t1 x newX
                in if m_minCostPerAgent s2 ! x < m then ?I (x + 1) (m_minCostPerAgent s2 ! x) x s2
                   else ?I (x + 1) m b s2)"
      using i1 keep_lt keep_ge unfolding Let_def by (simp only: if_split) blast
  qed
  then obtain x' where I: "?I x' m' b' s'" and ex: "\<not> x' < m_populationSize s'" by auto
  then have "x' = m_populationSize s'" by simp
  with I pos show ?thesis by auto
qed

section \<open>The generation step\<close>

lemma SelectionAndCorssing_SomeD:
  assumes "SelectionAndCorssing lib s = Some s'"
  obtains m b t where "selection_loop lib 0 (m_minCostPerAgent s ! 0) 0 s = Some (m, b, t)"
    and "s' = t\<lparr>m_minCost := Finite m, m_bestAgentIndex := b\<rparr>"
  using assms by (auto simp: SelectionAndCorssing_def split: option.splits)

lemma SelectionAndCorssing_shaped:
  assumes "SelectionAndCorssing lib s = Some s'" and "shaped s"
  shows "same_configuration s s'" and "shaped s'"
proof -
  from assms(1) obtain m b t where
    run: "selection_loop lib 0 (m_minCostPerAgent s ! 0) 0 s = Some (m, b, t)"
    and s': "s' = t\<lparr>m_minCost := Finite m, m_bestAgentIndex := b\<rparr>"
    by (rule SelectionAndCorssing_SomeD)
  from selection_loop_shaped[OF run assms(2)] s'
  show "same_configuration s s'" and "shaped s'"
    by (auto simp: same_configuration_def shaped_def)
qed

lemma SelectionAndCorssing_cache:
  assumes "SelectionAndCorssing lib s = Some s'" and "shaped s" and "cache_in_sync s"
  shows "cache_in_sync s'"
proof -
  from assms(1) obtain m b t where
    run: "selection_loop lib 0 (m_minCostPerAgent s ! 0) 0 s = Some (m, b, t)"
    and s': "s' = t\<lparr>m_minCost := Finite m, m_bestAgentIndex := b\<rparr>"
    by (rule SelectionAndCorssing_SomeD)
  from selection_loop_cache[OF run assms(2,3)] s'
  show ?thesis by (auto simp: cache_in_sync_def)
qed

lemma SelectionAndCorssing_cost_le:
  assumes "SelectionAndCorssing lib s = Some s'"
  shows "m_minCostPerAgent s' ! i \<le> m_minCostPerAgent s ! i"
proof -
  from assms(1) obtain m b t where
    run: "selection_loop lib 0 (m_minCostPerAgent s ! 0) 0 s = Some (m, b, t)"
    and s': "s' = t\<lparr>m_minCost := Finite m, m_bestAgentIndex := b\<rparr>"
    by (rule SelectionAndCorssing_SomeD)
  from selection_loop_cost_le[OF run, of i] s' show ?thesis by simp
qed

lemma SelectionAndCorssing_within_constraints:
  assumes "SelectionAndCorssing lib s = Some s'"
    and "m_shouldCheckConstraints s" and "within_constraints s"
  shows "within_constraints s'"
proof -
  from assms(1) obtain m b t where
    run: "selection_loop lib 0 (m_minCostPerAgent s ! 0) 0 s = Some (m, b, t)"
    and s': "s' = t\<lparr>m_minCost := Finite m, m_bestAgentIndex := b\<rparr>"
    by (rule SelectionAndCorssing_SomeD)
  from selection_loop_within_constraints[OF run assms(2,3)] s'
  show ?thesis by (auto simp: within_constraints_def CheckConstraints_def)
qed

text \<open>
  After a generation step the best-tracking state is right: \<open>m_minCost\<close> is the least cached
  cost, and \<open>m_bestAgentIndex\<close> is a slot that has it.
\<close>

lemma SelectionAndCorssing_best:
  assumes "SelectionAndCorssing lib s = Some s'" and "shaped s" and "0 < m_populationSize s"
  shows "m_bestAgentIndex s' < m_populationSize s'"
    and "m_minCost s' = Finite (GetBestCost s')"
    and "GetBestCost s' = Min (set (m_minCostPerAgent s'))"
proof -
  from assms(1) obtain m b t where
    run: "selection_loop lib 0 (m_minCostPerAgent s ! 0) 0 s = Some (m, b, t)"
    and s': "s' = t\<lparr>m_minCost := Finite m, m_bestAgentIndex := b\<rparr>"
    by (rule SelectionAndCorssing_SomeD)
  from selection_loop_best[OF run assms(2,3)]
  have b: "b < m_populationSize t" and m: "m = m_minCostPerAgent t ! b"
    and le: "\<forall>j<m_populationSize t. m \<le> m_minCostPerAgent t ! j" by auto
  from selection_loop_shaped[OF run assms(2)] have len: "length (m_minCostPerAgent t) = m_populationSize t"
    by (simp add: shaped_def)
  show "m_bestAgentIndex s' < m_populationSize s'" using b s' by simp
  show "m_minCost s' = Finite (GetBestCost s')" using m s' by (simp add: GetBestCost_def)
  have "Min (set (m_minCostPerAgent t)) = m"
  proof (rule Min_eqI)
    show "finite (set (m_minCostPerAgent t))" by simp
    show "m \<in> set (m_minCostPerAgent t)" using b m len by simp
    fix y assume "y \<in> set (m_minCostPerAgent t)"
    then obtain j where "j < length (m_minCostPerAgent t)" "y = m_minCostPerAgent t ! j"
      by (auto simp: in_set_conv_nth)
    with le len show "m \<le> y" by simp
  qed
  with m s' show "GetBestCost s' = Min (set (m_minCostPerAgent s'))"
    by (simp add: GetBestCost_def)
qed

section \<open>Any number of generations\<close>

lemma generations_invariants:
  assumes c: "construct lib costFunction N randomSeed chk = Inr s0"
    and g: "generations lib k (InitPopulation lib s0) = Some s"
  shows "same_configuration s0 s \<and> shaped s \<and> cache_in_sync s"
  using g
proof (induction k arbitrary: s)
  case 0
  with InitPopulation_constructed(1-3)[OF c] show ?case by simp
next
  case (Suc k)
  then obtain t where t: "generations lib k (InitPopulation lib s0) = Some t"
    and st: "SelectionAndCorssing lib t = Some s"
    by (auto split: option.splits)
  from Suc.IH[OF t] have i: "same_configuration s0 t" "shaped t" "cache_in_sync t" by auto
  from SelectionAndCorssing_shaped[OF st i(2)] SelectionAndCorssing_cache[OF st i(2,3)]
    same_configuration_trans[OF i(1)]
  show ?case by blast
qed

lemma generations_within_constraints:
  assumes c: "construct lib costFunction N randomSeed True = Inr s0"
    and u: "uniform_in_range lib"
    and wf: "\<forall>i<NumberOfParameters costFunction.
               isConstrained (GetConstraints costFunction ! i) \<longrightarrow>
               lower (GetConstraints costFunction ! i) \<le> upper (GetConstraints costFunction ! i)"
    and g: "generations lib k (InitPopulation lib s0) = Some s"
  shows "within_constraints s"
  using g
proof (induction k arbitrary: s)
  case 0
  with InitPopulation_within_constraints[OF c u wf] show ?case by simp
next
  case (Suc k)
  then obtain t where t: "generations lib k (InitPopulation lib s0) = Some t"
    and st: "SelectionAndCorssing lib t = Some s"
    by (auto split: option.splits)
  from generations_invariants[OF c t] c have "m_shouldCheckConstraints t"
    by (auto simp: same_configuration_def construct_Inr_iff)
  from SelectionAndCorssing_within_constraints[OF st this Suc.IH[OF t]] show ?case .
qed

section \<open>The concrete instance, evaluated\<close>

lemma uniform_in_range_replay: "uniform_in_range replay"
proof -
  have "a \<le> fst (replay_uniform a b g) \<and> fst (replay_uniform a b g) \<le> b
        \<and> (a < b \<longrightarrow> fst (replay_uniform a b g) < b)" if ab: "a \<le> b" for a b :: real and g
  proof (cases g)
    case Nil
    with ab show ?thesis by (simp add: replay_uniform_def)
  next
    case (Cons u g')
    show ?thesis
    proof (cases "0 \<le> u \<and> u < 1")
      case False
      with ab Cons show ?thesis by (auto simp: replay_uniform_def)
    next
      case True
      have le: "(b - a) * u \<le> (b - a) * 1"
        using True ab by (intro mult_left_mono) auto
      have ge: "0 \<le> (b - a) * u" using True ab by simp
      have lt: "a + (b - a) * u < b" if "a < b"
      proof -
        from that True have "(b - a) * u < (b - a) * 1"
          by (intro mult_strict_left_mono) auto
        then show ?thesis by simp
      qed
      have v: "fst (replay_uniform a b g) = a + (b - a) * u"
        using True Cons by (simp add: replay_uniform_def)
      from le ge lt show ?thesis unfolding v by auto
    qed
  qed
  then show ?thesis by (simp add: uniform_in_range_def replay_def)
qed

lemma sphere_constraints:
  "\<forall>i<NumberOfParameters sphere.
     isConstrained (GetConstraints sphere ! i) \<longrightarrow>
     lower (GetConstraints sphere ! i) \<le> upper (GetConstraints sphere ! i)"
  by (simp add: sphere_def)

lemma population_123_values:
  "m_population population_123 = [[2, 3], [1, 0], [0, 1], [1, 2]]"
  "m_minCostPerAgent population_123 = [13, 1, 1, 5]"
  "m_bestAgentIndex population_123 = 0"
  "m_minCost population_123 = MinusInfinity"
  "GetBestCost population_123 = 13"
  by code_simp+

lemma step_123_returns: "\<not> Option.is_none (SelectionAndCorssing replay population_123)"
  by code_simp

lemma step_123: "SelectionAndCorssing replay population_123 = Some generation_123"
  using step_123_returns by (auto simp: generation_123_def Option.is_none_def)

lemma generation_123_values:
  "m_population generation_123 = [[1/5, 3], [1, 0], [0, 1], [16/25, 2]]"
  "m_minCostPerAgent generation_123 = [226/25, 1, 1, 2756/625]"
  "m_bestAgentIndex generation_123 = 1"
  "m_minCost generation_123 = Finite 1"
  "GetBestCost generation_123 = 1"
  "GetBestAgent generation_123 = [1, 0]"
  by code_simp+

lemma step_7_returns: "\<not> Option.is_none (SelectionAndCorssing replay population_7)"
  by code_simp

lemma step_7: "SelectionAndCorssing replay population_7 = Some generation_7"
  using step_7_returns by (auto simp: generation_7_def Option.is_none_def)

lemma generation_7_values:
  "m_population generation_7 = [[1/5, - (4/5)], [1, 0], [0, 1], [16/25, 2]]"
  "m_minCostPerAgent generation_7 = [17/25, 1, 1, 2756/625]"
  "m_minCostPerAgent population_7 = [13, 1, 1, 5]"
  "\<not> CheckConstraints generation_7 (m_population generation_7 ! 0)"
  by code_simp+

lemma generations_123: "generations replay 1 (InitPopulation replay engine_123) = Some generation_123"
  using step_123 by (simp add: population_123_def)

section \<open>The claims about initialisation and the generation step\<close>

text \<open>
  C1. The claim asks that after \<open>InitPopulation\<close>, as after every generation step, the best
  cost is the least cached cost. The generation step does that
  (\<open>SelectionAndCorssing_best\<close>). \<open>InitPopulation\<close> does not: the constructor
  stores minus infinity in \<open>m_minCost\<close>, no cost is below it, and the best index stays 0
  (\<open>InitPopulation_constructed\<close>). On the engine over \<open>sphere\<close> with seed 123 the cached
  costs after \<open>InitPopulation\<close> are 13, 1, 1, 5; \<open>GetBestCost\<close> is 13 and the least cost is 1.
\<close>

theorem InitPopulation_best_not_minimum:
  "construct replay sphere 4 123 True = Inr engine_123
   \<and> m_minCostPerAgent (InitPopulation replay engine_123) = [13, 1, 1, 5]
   \<and> m_bestAgentIndex (InitPopulation replay engine_123) = 0
   \<and> m_minCost (InitPopulation replay engine_123) = MinusInfinity
   \<and> GetBestCost (InitPopulation replay engine_123) = 13
   \<and> Min (set (m_minCostPerAgent (InitPopulation replay engine_123))) = 1"
  using construct_123 population_123_values by (simp add: population_123_def)

lemma double_to_int_range:
  assumes "0 \<le> v" and "v < real n"
  shows "0 \<le> double_to_int v" and "double_to_int v < int n"
  using assms by (auto simp: double_to_int_def floor_less_iff)

lemma make_trial_eq:
  "fst (make_trial lib s x a b c g1) =
     crossing s x (mutate s a b c) (forced_dimension lib s g1) (crossover_draws lib s g1)"
  by (simp add: make_trial_def forced_dimension_def crossover_draws_def Let_def split: prod.splits)

text \<open>
  C2. In a state with the configuration of a constructed engine, the trial vector that
  \<open>make_trial\<close> builds for slot \<open>x\<close> from the donors \<open>a\<close>, \<open>b\<close>, \<open>c\<close> has in dimension \<open>i\<close> the
  value \<open>population[a][i] + 0.8 * (population[b][i] - population[c][i])\<close> when \<open>r[i] < 0.9\<close>
  or \<open>i = R\<close>, and \<open>population[x][i]\<close> otherwise. When the draws of the library are in
  range and there is at least one dimension, \<open>R\<close> is a dimension and the trial has the
  mutated value there.
\<close>

theorem trial_vector:
  assumes c: "construct lib costFunction populationSize randomSeed chk = Inr s0"
    and sc: "same_configuration s0 s"
  shows "(\<forall>i<NumberOfParameters costFunction.
            fst (make_trial lib s x a b c g1) ! i =
              (if crossover_draws lib s g1 ! i < 0.9 \<or> int i = forced_dimension lib s g1
               then m_population s ! nat a ! i
                      + 0.8 * (m_population s ! nat b ! i - m_population s ! nat c ! i)
               else m_population s ! x ! i))
       \<and> (uniform_in_range lib \<and> 0 < NumberOfParameters costFunction \<longrightarrow>
            0 \<le> forced_dimension lib s g1
          \<and> forced_dimension lib s g1 < int (NumberOfParameters costFunction)
          \<and> fst (make_trial lib s x a b c g1) ! nat (forced_dimension lib s g1) =
              m_population s ! nat a ! nat (forced_dimension lib s g1)
                + 0.8 * (m_population s ! nat b ! nat (forced_dimension lib s g1)
                          - m_population s ! nat c ! nat (forced_dimension lib s g1)))"
proof -
  let ?n = "NumberOfParameters costFunction"
  let ?R = "forced_dimension lib s g1"
  from c sc have f: "m_F s = 0.8" "m_CR s = 0.9" "m_numberOfParameters s = ?n"
    by (auto simp: construct_Inr_iff same_configuration_def)
  have nth: "fst (make_trial lib s x a b c g1) ! i =
              (if crossover_draws lib s g1 ! i < 0.9 \<or> int i = ?R
               then m_population s ! nat a ! i
                      + 0.8 * (m_population s ! nat b ! i - m_population s ! nat c ! i)
               else m_population s ! x ! i)" if "i < ?n" for i
    using that by (simp add: make_trial_eq crossing_eq mutate_eq f)
  have forced: "0 \<le> ?R \<and> ?R < int ?n
      \<and> fst (make_trial lib s x a b c g1) ! nat ?R =
          m_population s ! nat a ! nat ?R
            + 0.8 * (m_population s ! nat b ! nat ?R - m_population s ! nat c ! nat ?R)"
    if u: "uniform_in_range lib" and pos: "0 < ?n"
  proof -
    let ?v = "fst (uniform_real lib 0 (real ?n) g1)"
    from u pos have "0 \<le> ?v" "?v < real ?n" by (auto simp: uniform_in_range_def)
    from double_to_int_range[OF this] have r: "0 \<le> ?R" "?R < int ?n"
      by (simp_all add: forced_dimension_def f)
    then have "nat ?R < ?n" by simp
    from nth[OF this] r show ?thesis by simp
  qed
  from nth forced show ?thesis by blast
qed

lemma same_configuration_population_123: "same_configuration engine_123 population_123"
  using InitPopulation_constructed(1)[OF construct_123] by (simp add: population_123_def)

lemma shaped_population_123: "shaped population_123"
  using InitPopulation_constructed(2)[OF construct_123] by (simp add: population_123_def)

lemma trial_123_values:
  "fst (make_trial replay population_123 0 1 2 3 [0, 1/2, 19/20]) = [1/5, 3]"
  "forced_dimension replay population_123 [0, 1/2, 19/20] = 0"
  "crossover_draws replay population_123 [0, 1/2, 19/20] = [1/2, 19/20]"
  "NumberOfParameters sphere = 2"
  by code_simp+

theorem trial_vector_witness:
  "construct replay sphere 4 123 True = Inr engine_123
   \<and> same_configuration engine_123 population_123
   \<and> uniform_in_range replay
   \<and> 0 < NumberOfParameters sphere
   \<and> fst (make_trial replay population_123 0 1 2 3 [0, 1/2, 19/20]) = [1/5, 3]
   \<and> forced_dimension replay population_123 [0, 1/2, 19/20] = 0
   \<and> fst (make_trial replay population_123 0 1 2 3 [0, 1/2, 19/20]) ! 0 =
       m_population population_123 ! nat 1 ! 0
         + 0.8 * (m_population population_123 ! nat 2 ! 0 - m_population population_123 ! nat 3 ! 0)
   \<and> fst (make_trial replay population_123 0 1 2 3 [0, 1/2, 19/20]) ! 1 =
       m_population population_123 ! 0 ! 1"
proof -
  note t = trial_vector [OF construct_123 same_configuration_population_123,
                          of 0 1 2 3 "[0, 1/2, 19/20]"]
  from t[THEN conjunct1, rule_format, of 1]
  have "fst (make_trial replay population_123 0 1 2 3 [0, 1/2, 19/20]) ! 1 =
       m_population population_123 ! 0 ! 1"
    by (simp add: trial_123_values)
  moreover from t[THEN conjunct1, rule_format, of 0]
  have "fst (make_trial replay population_123 0 1 2 3 [0, 1/2, 19/20]) ! 0 =
       m_population population_123 ! nat 1 ! 0
         + 0.8 * (m_population population_123 ! nat 2 ! 0 - m_population population_123 ! nat 3 ! 0)"
    by (simp add: trial_123_values)
  ultimately show ?thesis
    using construct_123 same_configuration_population_123 uniform_in_range_replay
    by (simp add: trial_123_values)
qed

text \<open>
  C3. For a slot \<open>x\<close> of an engine whose vectors have their sizes, \<open>selection\<close> stores the
  trial and its cost in slot \<open>x\<close> when the trial's cost is strictly below the cached cost
  of the slot, and changes nothing otherwise; and the cached cost of the slot after a
  generation step is at most what it was before the step.
\<close>

theorem greedy_selection:
  assumes sh: "shaped s" and x: "x < m_populationSize s"
  shows "(EvaluteCost (m_cost s) newX < m_minCostPerAgent s ! x \<longrightarrow>
            m_population (selection s x newX) = (m_population s)[x := newX]
          \<and> m_minCostPerAgent (selection s x newX) =
               (m_minCostPerAgent s)[x := EvaluteCost (m_cost s) newX]
          \<and> m_population (selection s x newX) ! x = newX
          \<and> m_minCostPerAgent (selection s x newX) ! x = EvaluteCost (m_cost s) newX)
       \<and> (\<not> EvaluteCost (m_cost s) newX < m_minCostPerAgent s ! x \<longrightarrow> selection s x newX = s)
       \<and> (\<forall>s'. SelectionAndCorssing lib s = Some s' \<longrightarrow>
             m_minCostPerAgent s' ! x \<le> m_minCostPerAgent s ! x)"
proof (intro conjI impI allI)
  assume lt: "EvaluteCost (m_cost s) newX < m_minCostPerAgent s ! x"
  with selection_cases[of s x newX]
  have e: "selection s x newX =
             s\<lparr>m_population := (m_population s)[x := newX],
               m_minCostPerAgent := (m_minCostPerAgent s)[x := EvaluteCost (m_cost s) newX]\<rparr>"
    by auto
  from sh x have l: "x < length (m_population s)" "x < length (m_minCostPerAgent s)"
    by (auto simp: shaped_def)
  show "m_population (selection s x newX) = (m_population s)[x := newX]" by (simp add: e)
  show "m_minCostPerAgent (selection s x newX) =
          (m_minCostPerAgent s)[x := EvaluteCost (m_cost s) newX]" by (simp add: e)
  show "m_population (selection s x newX) ! x = newX" using l by (simp add: e)
  show "m_minCostPerAgent (selection s x newX) ! x = EvaluteCost (m_cost s) newX"
    using l by (simp add: e)
next
  assume "\<not> EvaluteCost (m_cost s) newX < m_minCostPerAgent s ! x"
  with selection_cases[of s x newX] show "selection s x newX = s" by auto
next
  fix s' assume "SelectionAndCorssing lib s = Some s'"
  then show "m_minCostPerAgent s' ! x \<le> m_minCostPerAgent s ! x"
    by (rule SelectionAndCorssing_cost_le)
qed

lemma selection_123_values:
  "m_populationSize population_123 = 4"
  "EvaluteCost (m_cost population_123) [1/5, 3] < m_minCostPerAgent population_123 ! 0"
  "\<not> EvaluteCost (m_cost population_123) [1, 11/5] < m_minCostPerAgent population_123 ! 1"
  by code_simp+

theorem greedy_selection_witness:
  "shaped population_123 \<and> (0::nat) < m_populationSize population_123
   \<and> EvaluteCost (m_cost population_123) [1/5, 3] < m_minCostPerAgent population_123 ! 0
   \<and> m_population (selection population_123 0 [1/5, 3]) ! 0 = [1/5, 3]
   \<and> m_minCostPerAgent (selection population_123 0 [1/5, 3]) ! 0
        = EvaluteCost (m_cost population_123) [1/5, 3]
   \<and> SelectionAndCorssing replay population_123 = Some generation_123
   \<and> m_minCostPerAgent generation_123 ! 0 \<le> m_minCostPerAgent population_123 ! 0"
proof -
  have x: "(0::nat) < m_populationSize population_123" by (simp add: selection_123_values)
  note g = greedy_selection [OF shaped_population_123 x, of "[1/5, 3]" replay]
  from g selection_123_values(2)
  have "m_population (selection population_123 0 [1/5, 3]) ! 0 = [1/5, 3]"
    and "m_minCostPerAgent (selection population_123 0 [1/5, 3]) ! 0
           = EvaluteCost (m_cost population_123) [1/5, 3]"
    by blast+
  moreover from g step_123
  have "m_minCostPerAgent generation_123 ! 0 \<le> m_minCostPerAgent population_123 ! 0" by blast
  ultimately show ?thesis
    using shaped_population_123 x selection_123_values(2) step_123 by blast
qed

lemma selection_loop_discard:
  assumes "x < m_populationSize t"
    and "select_donors lib (m_populationSize t) (int x) (int x) (int x) (int x) (m_generator t)
           = Some (a, b, c, g1)"
    and "make_trial lib t x a b c g1 = (newX, g3)"
    and "m_shouldCheckConstraints t" and "\<not> CheckConstraints t newX"
  shows "selection_loop lib x minCost best t = selection_loop lib x minCost best (t\<lparr>m_generator := g3\<rparr>)"
proof -
  have "CheckConstraints (t\<lparr>m_generator := g3\<rparr>) newX = CheckConstraints t newX"
    by (simp add: CheckConstraints_def)
  with assms show ?thesis
    by (subst selection_loop.simps) simp
qed

text \<open>
  C4. With the constraint check enabled, with draws of the library in range and with
  \<open>lower \<le> upper\<close> in every enforced constraint, every agent of the population passes
  \<open>CheckConstraints\<close> after \<open>InitPopulation\<close> and after any number of generation steps. A
  trial that fails the check is dropped: the loop goes on at the same slot, with nothing
  changed but the generator. With the check disabled an agent outside the bounds is
  stored when it lowers the cost of its slot: the engine with seed 7 does so in slot 0.
\<close>

theorem constraint_check:
  "(construct lib costFunction N randomSeed True = Inr s0
      \<and> uniform_in_range lib
      \<and> (\<forall>i<NumberOfParameters costFunction.
            isConstrained (GetConstraints costFunction ! i) \<longrightarrow>
            lower (GetConstraints costFunction ! i) \<le> upper (GetConstraints costFunction ! i))
      \<and> generations lib k (InitPopulation lib s0) = Some s
      \<longrightarrow> within_constraints s)
   \<and> (x < m_populationSize t
      \<and> select_donors lib (m_populationSize t) (int x) (int x) (int x) (int x) (m_generator t)
           = Some (a, b, c, g1)
      \<and> make_trial lib t x a b c g1 = (newX, g3)
      \<and> m_shouldCheckConstraints t \<and> \<not> CheckConstraints t newX
      \<longrightarrow> selection_loop lib x minCost best t
            = selection_loop lib x minCost best (t\<lparr>m_generator := g3\<rparr>))
   \<and> (\<exists>e p. construct replay sphere 4 7 False = Inr e
          \<and> SelectionAndCorssing replay (InitPopulation replay e) = Some p
          \<and> \<not> CheckConstraints p (m_population p ! 0)
          \<and> m_minCostPerAgent p ! 0 < m_minCostPerAgent (InitPopulation replay e) ! 0)"
proof (intro conjI impI)
  assume "construct lib costFunction N randomSeed True = Inr s0
      \<and> uniform_in_range lib
      \<and> (\<forall>i<NumberOfParameters costFunction.
            isConstrained (GetConstraints costFunction ! i) \<longrightarrow>
            lower (GetConstraints costFunction ! i) \<le> upper (GetConstraints costFunction ! i))
      \<and> generations lib k (InitPopulation lib s0) = Some s"
  then show "within_constraints s"
    using generations_within_constraints[of lib costFunction N randomSeed s0 k s] by blast
next
  assume "x < m_populationSize t
      \<and> select_donors lib (m_populationSize t) (int x) (int x) (int x) (int x) (m_generator t)
           = Some (a, b, c, g1)
      \<and> make_trial lib t x a b c g1 = (newX, g3)
      \<and> m_shouldCheckConstraints t \<and> \<not> CheckConstraints t newX"
  then show "selection_loop lib x minCost best t
            = selection_loop lib x minCost best (t\<lparr>m_generator := g3\<rparr>)"
    by (elim conjE) (rule selection_loop_discard; assumption)
next
  have "m_minCostPerAgent generation_7 ! 0 < m_minCostPerAgent population_7 ! 0"
    by (simp add: generation_7_values)
  with construct_7 step_7 generation_7_values(4)
  show "\<exists>e p. construct replay sphere 4 7 False = Inr e
          \<and> SelectionAndCorssing replay (InitPopulation replay e) = Some p
          \<and> \<not> CheckConstraints p (m_population p ! 0)
          \<and> m_minCostPerAgent p ! 0 < m_minCostPerAgent (InitPopulation replay e) ! 0"
    unfolding population_7_def by blast
qed

lemma discard_123_values:
  "select_donors replay (m_populationSize population_123) (int 0) (int 0) (int 0) (int 0)
     (m_generator population_123) = Some (1, 2, 3, drop 6 (m_generator population_123))"
  "make_trial replay population_123 0 1 2 3 (drop 6 (m_generator population_123))
     = ([1/5, - (4/5)], after_first_trial)"
  "m_shouldCheckConstraints population_123"
  "\<not> CheckConstraints population_123 [1/5, - (4/5)]"
  by code_simp+

theorem constraint_check_witness:
  "construct replay sphere 4 123 True = Inr engine_123
   \<and> uniform_in_range replay
   \<and> generations replay 1 (InitPopulation replay engine_123) = Some generation_123
   \<and> within_constraints generation_123
   \<and> m_population generation_123 = [[1/5, 3], [1, 0], [0, 1], [16/25, 2]]
   \<and> make_trial replay population_123 0 1 2 3 (drop 6 (m_generator population_123))
       = ([1/5, - (4/5)], after_first_trial)
   \<and> \<not> CheckConstraints population_123 [1/5, - (4/5)]
   \<and> selection_loop replay 0 13 0 population_123
       = selection_loop replay 0 13 0 (population_123\<lparr>m_generator := after_first_trial\<rparr>)"
proof -
  note cc = constraint_check [of replay sphere 4 123 engine_123 1 generation_123
              0 population_123 1 2 3 "drop 6 (m_generator population_123)"
              "[1/5, - (4/5)]" after_first_trial 13 0]
  from cc construct_123 uniform_in_range_replay sphere_constraints generations_123
  have w: "within_constraints generation_123" by blast
  have "(0::nat) < m_populationSize population_123" by (simp add: selection_123_values)
  with cc discard_123_values
  have d: "selection_loop replay 0 13 0 population_123
       = selection_loop replay 0 13 0 (population_123\<lparr>m_generator := after_first_trial\<rparr>)"
    by simp
  from w d show ?thesis
    using construct_123 uniform_in_range_replay generations_123 generation_123_values(1)
      discard_123_values(2,4)
    by simp
qed

lemma fold_snoc_map: "fold (\<lambda>i toRet. toRet @ [f i]) xs acc = acc @ map f xs"
  by (induction xs arbitrary: acc) auto

lemma GetPopulationWithCosts_eq:
  "GetPopulationWithCosts s =
     map (\<lambda>i. (m_population s ! i, m_minCostPerAgent s ! i)) [0..<m_populationSize s]"
  by (simp add: GetPopulationWithCosts_def fold_snoc_map)

text \<open>
  C5. After \<open>InitPopulation\<close> on a constructed engine and after any number of generation
  steps, the cached cost of every slot is \<open>EvaluteCost\<close> of the agent in that slot, and
  \<open>GetPopulationWithCosts\<close> returns \<open>populationSize\<close> entries, entry \<open>i\<close> being the agent
  and the cached cost of slot \<open>i\<close>.
\<close>

theorem cost_cache_in_sync:
  assumes c: "construct lib costFunction populationSize randomSeed chk = Inr s0"
    and g: "generations lib k (InitPopulation lib s0) = Some s"
  shows "length (GetPopulationWithCosts s) = populationSize
       \<and> (\<forall>i<populationSize.
             m_minCostPerAgent s ! i = EvaluteCost costFunction (m_population s ! i)
           \<and> GetPopulationWithCosts s ! i = (m_population s ! i, m_minCostPerAgent s ! i))"
proof -
  from generations_invariants[OF c g] c
  have N: "m_populationSize s = populationSize" and cf: "m_cost s = costFunction"
    and ca: "cache_in_sync s"
    by (auto simp: same_configuration_def construct_Inr_iff)
  from ca N cf show ?thesis
    by (simp add: GetPopulationWithCosts_eq cache_in_sync_def)
qed

lemma pairs_123_values:
  "GetPopulationWithCosts generation_123 =
     [([1/5, 3], 226/25), ([1, 0], 1), ([0, 1], 1), ([16/25, 2], 2756/625)]"
  by code_simp

theorem cost_cache_in_sync_witness:
  "construct replay sphere 4 123 True = Inr engine_123
   \<and> generations replay 1 (InitPopulation replay engine_123) = Some generation_123
   \<and> length (GetPopulationWithCosts generation_123) = 4
   \<and> m_minCostPerAgent generation_123 ! 3 = EvaluteCost sphere (m_population generation_123 ! 3)
   \<and> GetPopulationWithCosts generation_123 ! 3 = ([16/25, 2], 2756/625)"
proof -
  note t = cost_cache_in_sync [OF construct_123 generations_123]
  from t have "length (GetPopulationWithCosts generation_123) = 4" by blast
  moreover from t have "m_minCostPerAgent generation_123 ! 3
      = EvaluteCost sphere (m_population generation_123 ! 3)" by simp
  ultimately show ?thesis
    using construct_123 generations_123 by (simp add: pairs_123_values)
qed

section \<open>Donor selection\<close>

lemma select_donors_rounds:
  assumes "select_donors lib N x a b c g = Some d"
  shows "if rejected x (a, b, c, g)
         then \<exists>k. \<not> rejected x (donor_rounds lib N k g) \<and> d = donor_rounds lib N k g
         else d = (a, b, c, g)"
proof -
  let ?P = "\<lambda>lib N x a b c g d.
              if rejected x (a, b, c, g)
              then \<exists>k. \<not> rejected x (donor_rounds lib N k g) \<and> d = donor_rounds lib N k g
              else d = (a, b, c, g)"
  show "?P lib N x a b c g d"
  proof (rule select_donors.raw_induct
           [where P = ?P and xa = "((((((lib, N), x), a), b), c), g)" and y = d, unfolded prod.case])
    show "select_donors lib N x a b c g = Some d" by (rule assms)
  next
    fix f :: "'a random_library \<Rightarrow> nat \<Rightarrow> int \<Rightarrow> int \<Rightarrow> int \<Rightarrow> int \<Rightarrow> 'a \<Rightarrow> (int \<times> int \<times> int \<times> 'a) option"
    fix lib N x a b c g d
    assume IH: "\<And>lib N x a b c g d. f lib N x a b c g = Some d \<Longrightarrow> ?P lib N x a b c g d"
    assume body: "(if a = x \<or> b = x \<or> c = x \<or> a = b \<or> a = c \<or> b = c
      then let (va, g1) = uniform_real lib 0 (real N) g;
               (vb, g2) = uniform_real lib 0 (real N) g1;
               (vc, g3) = uniform_real lib 0 (real N) g2
           in f lib N x (double_to_int va) (double_to_int vb) (double_to_int vc) g3
      else Some (a, b, c, g)) = Some d"
    show "?P lib N x a b c g d"
    proof (cases "rejected x (a, b, c, g)")
      case False
      with body show ?thesis by (auto simp: rejected_def)
    next
      case rj: True
      obtain a' b' c' g' where r: "donor_round lib N g = (a', b', c', g')"
        by (cases "donor_round lib N g") auto
      from rj body r have call: "f lib N x a' b' c' g' = Some d"
        by (auto simp: rejected_def donor_round_def split: prod.splits)
      have "\<exists>k. \<not> rejected x (donor_rounds lib N k g) \<and> d = donor_rounds lib N k g"
      proof (cases "rejected x (a', b', c', g')")
        case True
        with IH[OF call] obtain k where
          "\<not> rejected x (donor_rounds lib N k g')" "d = donor_rounds lib N k g'" by auto
        with r have "\<not> rejected x (donor_rounds lib N (Suc k) g) \<and> d = donor_rounds lib N (Suc k) g"
          by simp
        then show ?thesis ..
      next
        case False
        with IH[OF call] have "d = (a', b', c', g')" by simp
        with False r have "\<not> rejected x (donor_rounds lib N 0 g) \<and> d = donor_rounds lib N 0 g"
          by simp
        then show ?thesis ..
      qed
      with rj show ?thesis by simp
    qed
  qed
qed


lemma donor_rounds_in_range:
  assumes u: "uniform_in_range lib" and N: "0 < N"
    and d: "donor_rounds lib N k g = (a, b, c, g')"
  shows "0 \<le> a \<and> a < int N \<and> 0 \<le> b \<and> b < int N \<and> 0 \<le> c \<and> c < int N"
  using d
proof (induction k arbitrary: g)
  case 0
  have r: "0 \<le> double_to_int v \<and> double_to_int v < int N"
    if "uniform_real lib 0 (real N) h = (v, h')" for h v h'
  proof -
    from u N have "0 \<le> fst (uniform_real lib 0 (real N) h)" "fst (uniform_real lib 0 (real N) h) < real N"
      by (auto simp: uniform_in_range_def)
    from double_to_int_range[OF this] that show ?thesis by simp
  qed
  from 0 have "donor_round lib N g = (a, b, c, g')" by simp
  then show ?case
    by (auto simp: donor_round_def split: prod.splits dest: r)
next
  case (Suc k)
  then show ?case by simp
qed

lemma select_donors_SomeD:
  assumes "select_donors lib N x x x x g = Some d"
  shows "\<exists>k. \<not> rejected x (donor_rounds lib N k g) \<and> d = donor_rounds lib N k g"
proof -
  have "rejected x (x, x, x, g)" by (simp add: rejected_def)
  with select_donors_rounds[OF assms] show ?thesis by simp
qed








text \<open>
  Fewer than four agents leave no donors for a slot: with draws in range the donor loop
  of a slot \<open>x\<close> of such a population never returns. The assertion of the constructor
  excludes this.
\<close>

lemma select_donors_too_few:
  assumes u: "uniform_in_range lib" and N: "0 < N" "N < 4" and x: "0 \<le> x" "x < int N"
  shows "select_donors lib N x x x x g = None"
proof (rule ccontr)
  assume "select_donors lib N x x x x g \<noteq> None"
  then obtain d where s: "select_donors lib N x x x x g = Some d" by auto
  obtain a b c g' where d: "d = (a, b, c, g')" by (cases d) auto
  from select_donors_SomeD[OF s] d obtain k where
    ok: "\<not> rejected x (a, b, c, g')" and r: "donor_rounds lib N k g = (a, b, c, g')" by auto
  from donor_rounds_in_range[OF u N(1) r] ok N(2) x show False
    by (auto simp: rejected_def)
qed



text \<open>
  The hypothesis on the generator is needed in the model: a library whose draws from
  \<open>[0, 4)\<close> are all 0 stays within the range, and with it every round gives the donors
  0, 0, 0 and the donor loop does not return.
\<close>

lemma donor_rounds_exhausted: "donor_rounds replay 4 k [] = (0, 0, 0, [])"
  by (induction k) (simp_all add: donor_round_def replay_def replay_uniform_def double_to_int_def)

lemma select_donors_stuck: "select_donors replay 4 0 0 0 0 [] = None"
proof (rule ccontr)
  assume "select_donors replay 4 0 0 0 0 [] \<noteq> None"
  then obtain d where s: "select_donors replay 4 0 0 0 0 [] = Some d" by auto
  from select_donors_SomeD[OF s] obtain k where "\<not> rejected 0 (donor_rounds replay 4 k [])"
    by auto
  then show False by (simp add: donor_rounds_exhausted rejected_def)
qed

section \<open>Optimize\<close>

lemma generations_front:
  "generations lib (Suc k) s =
     (case SelectionAndCorssing lib s of None \<Rightarrow> None | Some s1 \<Rightarrow> generations lib k s1)"
  by (induction k) (auto split: option.splits)

lemma caller_state_front:
  assumes "SelectionAndCorssing lib s = Some s1"
  shows "caller_state lib cb tc (Suc k) s w = caller_state lib cb tc k s1 (snd (observe cb tc s1 w))"
proof (induction k)
  case 0
  from assms show ?case by simp
next
  case (Suc k)
  have "generations lib (Suc (Suc k)) s = generations lib (Suc k) s1"
    using assms by (subst generations_front) simp
  with Suc show ?case by simp
qed

lemma answer_first:
  assumes "SelectionAndCorssing lib s = Some s1"
  shows "answer lib cb tc (Suc 0) s w = fst (observe cb tc s1 w)"
  using assms by (simp add: answer_def)

lemma answer_front:
  assumes "SelectionAndCorssing lib s = Some s1"
  shows "answer lib cb tc (Suc (Suc k)) s w = answer lib cb tc (Suc k) s1 (snd (observe cb tc s1 w))"
proof -
  have "generations lib (Suc (Suc k)) s = generations lib (Suc k) s1"
    using assms by (subst generations_front) simp
  then show ?thesis
    unfolding answer_def using caller_state_front[OF assms, of cb tc k w] by simp
qed

lemma progress_lines_front:
  assumes "SelectionAndCorssing lib s = Some s1"
  shows "progress_lines lib (Suc k) s = print_progress s1 # progress_lines lib k s1"
proof (induction k)
  case 0
  from assms show ?case by simp
next
  case (Suc k)
  have "generations lib (Suc (Suc k)) s = generations lib (Suc k) s1"
    using assms by (subst generations_front) simp
  with Suc show ?case by simp
qed

lemma Optimize_loop_unfold:
  "Optimize_loop lib cb tc iterations verbose i s w out =
     (if i < iterations then
        (case SelectionAndCorssing lib s of
           None \<Rightarrow> None
         | Some s1 \<Rightarrow>
             if fst (observe cb tc s1 w)
             then Some (s1, snd (observe cb tc s1 w),
                        if verbose then out @ [print_progress s1, TerminatedByCondition] else out)
             else Optimize_loop lib cb tc iterations verbose (i + 1) s1 (snd (observe cb tc s1 w))
                    (if verbose then out @ [print_progress s1] else out))
      else Some (s, w, if verbose then out @ [TerminatedByGenerations] else out))"
  by (subst Optimize_loop.simps) (simp add: observe_def Let_def split: option.splits)

lemma Optimize_loop_result:
  assumes "Optimize_loop lib cb tc iterations verbose i s w out = Some (s', w', out')"
  shows "\<exists>k. int k \<le> max 0 (iterations - i)
           \<and> generations lib k s = Some s'
           \<and> w' = caller_state lib cb tc k s w
           \<and> (\<forall>j. 0 < j \<and> j < k \<longrightarrow> \<not> answer lib cb tc j s w)
           \<and> (0 < k \<and> answer lib cb tc k s w
                \<and> out' = (if verbose then out @ progress_lines lib k s @ [TerminatedByCondition] else out)
              \<or> int k = max 0 (iterations - i) \<and> (0 < k \<longrightarrow> \<not> answer lib cb tc k s w)
                \<and> out' = (if verbose then out @ progress_lines lib k s @ [TerminatedByGenerations] else out))"
  using assms
proof (induction "nat (iterations - i)" arbitrary: i s w out)
  case 0
  then have "\<not> i < iterations" by simp
  with "0.prems" have r: "s' = s" "w' = w"
    "out' = (if verbose then out @ [TerminatedByGenerations] else out)"
    by (simp_all add: Optimize_loop_unfold)
  from \<open>\<not> i < iterations\<close> have m: "max 0 (iterations - i) = 0" by simp
  show ?case
    by (rule exI[of _ 0]) (simp add: r m)
next
  case (Suc n)
  then have lt: "i < iterations" by simp
  with Suc.prems obtain s1 where st: "SelectionAndCorssing lib s = Some s1"
    by (subst (asm) Optimize_loop_unfold) (auto split: option.splits)
  let ?o = "observe cb tc s1 w"
  let ?out1 = "if verbose then out @ [print_progress s1] else out"
  have g1: "generations lib (Suc 0) s = Some s1" using st by simp
  show ?case
  proof (cases "fst ?o")
    case True
    with Suc.prems lt st have r: "s' = s1" "w' = snd ?o"
      "out' = (if verbose then out @ [print_progress s1, TerminatedByCondition] else out)"
      by (auto simp: Optimize_loop_unfold)
    from lt have "int (Suc 0) \<le> max 0 (iterations - i)" by simp
    moreover have "answer lib cb tc (Suc 0) s w" using True st by (simp add: answer_first)
    moreover have "w' = caller_state lib cb tc (Suc 0) s w" using r st by simp
    moreover have "out' = (if verbose then out @ progress_lines lib (Suc 0) s @ [TerminatedByCondition] else out)"
      using r st by simp
    ultimately show ?thesis
      using g1 r(1) by (intro exI[of _ "Suc 0"]) simp
  next
    case False
    with Suc.prems lt st
    have rec: "Optimize_loop lib cb tc iterations verbose (i + 1) s1 (snd ?o) ?out1 = Some (s', w', out')"
      by (subst (asm) Optimize_loop_unfold) simp
    from Suc.hyps(2) have n: "n = nat (iterations - (i + 1))" by simp
    from Suc.hyps(1)[OF n rec] obtain k where
      kb: "int k \<le> max 0 (iterations - (i + 1))"
      and kg: "generations lib k s1 = Some s'"
      and kw: "w' = caller_state lib cb tc k s1 (snd ?o)"
      and ka: "\<forall>j. 0 < j \<and> j < k \<longrightarrow> \<not> answer lib cb tc j s1 (snd ?o)"
      and kd: "0 < k \<and> answer lib cb tc k s1 (snd ?o)
                \<and> out' = (if verbose then ?out1 @ progress_lines lib k s1 @ [TerminatedByCondition] else ?out1)
              \<or> int k = max 0 (iterations - (i + 1)) \<and> (0 < k \<longrightarrow> \<not> answer lib cb tc k s1 (snd ?o))
                \<and> out' = (if verbose then ?out1 @ progress_lines lib k s1 @ [TerminatedByGenerations] else ?out1)"
      by blast
    have a1: "\<not> answer lib cb tc (Suc 0) s w" using False st by (simp add: answer_first)
    have shift: "answer lib cb tc (Suc j) s w = answer lib cb tc j s1 (snd ?o)" if "0 < j" for j
      using that answer_front[OF st, of cb tc "j - 1" w] by simp
    have b: "int (Suc k) \<le> max 0 (iterations - i)" using kb lt by simp
    have g: "generations lib (Suc k) s = Some s'" using kg st by (subst generations_front) simp
    have w: "w' = caller_state lib cb tc (Suc k) s w"
      using kw by (simp only: caller_state_front[OF st])
    have a: "\<forall>j. 0 < j \<and> j < Suc k \<longrightarrow> \<not> answer lib cb tc j s w"
    proof (intro allI impI)
      fix j assume j: "0 < j \<and> j < Suc k"
      show "\<not> answer lib cb tc j s w"
      proof (cases "j = Suc 0")
        case True with a1 show ?thesis by simp
      next
        case False
        with j obtain j' where j': "j = Suc j'" "0 < j'" "j' < k" by (cases j) auto
        with ka shift[of j'] show ?thesis by simp
      qed
    qed
    have pl: "progress_lines lib (Suc k) s = print_progress s1 # progress_lines lib k s1"
      by (rule progress_lines_front[OF st])
    from kd have d: "0 < Suc k \<and> answer lib cb tc (Suc k) s w
                \<and> out' = (if verbose then out @ progress_lines lib (Suc k) s @ [TerminatedByCondition] else out)
              \<or> int (Suc k) = max 0 (iterations - i) \<and> (0 < Suc k \<longrightarrow> \<not> answer lib cb tc (Suc k) s w)
                \<and> out' = (if verbose then out @ progress_lines lib (Suc k) s @ [TerminatedByGenerations] else out)"
    proof
      assume c: "0 < k \<and> answer lib cb tc k s1 (snd ?o)
                \<and> out' = (if verbose then ?out1 @ progress_lines lib k s1 @ [TerminatedByCondition] else ?out1)"
      with shift[of k] pl show ?thesis by simp
    next
      assume c: "int k = max 0 (iterations - (i + 1)) \<and> (0 < k \<longrightarrow> \<not> answer lib cb tc k s1 (snd ?o))
                \<and> out' = (if verbose then ?out1 @ progress_lines lib k s1 @ [TerminatedByGenerations] else ?out1)"
      have "\<not> answer lib cb tc (Suc k) s w"
      proof (cases "k = 0")
        case True with a1 show ?thesis by simp
      next
        case False with c shift[of k] show ?thesis by simp
      qed
      moreover from c lt have "int (Suc k) = max 0 (iterations - i)" by simp
      ultimately show ?thesis using c pl by simp
    qed
    from b g w a d show ?thesis by (intro exI[of _ "Suc k"]) blast
  qed
qed

lemma Optimize_result:
  assumes "Optimize lib cb tc iterations verbose s w = Some (s', w', out)"
  shows "\<exists>k. int k \<le> max 0 iterations
           \<and> generations lib k (InitPopulation lib s) = Some s'
           \<and> w' = caller_state lib cb tc k (InitPopulation lib s) w
           \<and> (\<forall>j. 0 < j \<and> j < k \<longrightarrow> \<not> answer lib cb tc j (InitPopulation lib s) w)
           \<and> (0 < k \<and> answer lib cb tc k (InitPopulation lib s) w
                \<and> out = (if verbose
                          then progress_lines lib k (InitPopulation lib s) @ [TerminatedByCondition]
                          else [])
              \<or> int k = max 0 iterations
                \<and> (0 < k \<longrightarrow> \<not> answer lib cb tc k (InitPopulation lib s) w)
                \<and> out = (if verbose
                          then progress_lines lib k (InitPopulation lib s) @ [TerminatedByGenerations]
                          else []))"
  using Optimize_loop_result[OF assms[unfolded Optimize_def]]
  by (simp only: append_Nil diff_zero)

text \<open>\<open>Optimize\<close> returns when each of the generation steps within its budget returns.\<close>

lemma Optimize_loop_returns:
  assumes "\<forall>k. int k \<le> max 0 (iterations - i) \<longrightarrow> generations lib k s \<noteq> None"
  shows "Optimize_loop lib cb tc iterations verbose i s w out \<noteq> None"
  using assms
proof (induction "nat (iterations - i)" arbitrary: i s w out)
  case 0
  then have "\<not> i < iterations" by simp
  then show ?case by (simp add: Optimize_loop_unfold)
next
  case (Suc n)
  then have lt: "i < iterations" by simp
  then have "int (Suc 0) \<le> max 0 (iterations - i)" by simp
  with Suc.prems have "generations lib (Suc 0) s \<noteq> None" by blast
  then obtain s1 where st: "SelectionAndCorssing lib s = Some s1" by auto
  show ?case
  proof (cases "fst (observe cb tc s1 w)")
    case True
    with lt st show ?thesis by (simp add: Optimize_loop_unfold)
  next
    case False
    from Suc.hyps(2) have n: "n = nat (iterations - (i + 1))" by simp
    have "\<forall>k. int k \<le> max 0 (iterations - (i + 1)) \<longrightarrow> generations lib k s1 \<noteq> None"
    proof (intro allI impI)
      fix k assume "int k \<le> max 0 (iterations - (i + 1))"
      with lt have "int (Suc k) \<le> max 0 (iterations - i)" by simp
      with Suc.prems have "generations lib (Suc k) s \<noteq> None" by blast
      with st show "generations lib k s1 \<noteq> None" by (subst (asm) generations_front) simp
    qed
    from Suc.hyps(1)[OF n this] False lt st show ?thesis
      by (subst Optimize_loop_unfold) simp
  qed
qed

lemma Optimize_returns:
  assumes "\<forall>k. int k \<le> max 0 iterations \<longrightarrow> generations lib k (InitPopulation lib s) \<noteq> None"
  shows "Optimize lib cb tc iterations verbose s w \<noteq> None"
  unfolding Optimize_def using assms by (intro Optimize_loop_returns) simp

text \<open>
  C9, as amended. A run of \<open>Optimize\<close> that returns has made \<open>k\<close> generation steps, at most
  \<open>iterations\<close>, from the state that one \<open>InitPopulation\<close> has left. The caller's state is
  the one that the observations of the generations 1 to \<open>k\<close> leave, each the callback
  followed by the termination condition. The termination condition has answered false
  after every generation before the last. Either it has answered true after generation
  \<open>k\<close>, and with \<open>verbose\<close> set the console ends with the message of the termination
  condition; or \<open>k\<close> is the whole budget, and with \<open>verbose\<close> set the console ends with the
  message of the generations. Without \<open>verbose\<close> the console stays empty.
\<close>

theorem Optimize_protocol:
  assumes "Optimize lib callback terminationCondition iterations verbose s w = Some (s', w', out)"
  shows "\<exists>k. int k \<le> max 0 iterations
           \<and> generations lib k (InitPopulation lib s) = Some s'
           \<and> w' = caller_state lib callback terminationCondition k (InitPopulation lib s) w
           \<and> (\<forall>j. 0 < j \<and> j < k \<longrightarrow>
                 \<not> answer lib callback terminationCondition j (InitPopulation lib s) w)
           \<and> (0 < k \<and> answer lib callback terminationCondition k (InitPopulation lib s) w
                \<and> out = (if verbose
                          then progress_lines lib k (InitPopulation lib s) @ [TerminatedByCondition]
                          else [])
              \<or> int k = max 0 iterations
                \<and> (0 < k \<longrightarrow> \<not> answer lib callback terminationCondition k (InitPopulation lib s) w)
                \<and> out = (if verbose
                          then progress_lines lib k (InitPopulation lib s) @ [TerminatedByGenerations]
                          else []))"
  using assms by (rule Optimize_result)

lemma print_123: "print_progress generation_123 = CurrentMinimalCost (Finite 1) [1, 0]"
  by code_simp

lemma Optimize_123_condition:
  "Optimize replay (Some count_generations) (Some cost_below_2) 5 verbose engine_123 0
     = Some (generation_123, 1,
             if verbose then [CurrentMinimalCost (Finite 1) [1, 0], TerminatedByCondition] else [])"
  unfolding Optimize_def population_123_def[symmetric]
  by (subst Optimize_loop_unfold)
     (simp add: step_123 observe_def call_callback_def count_generations_def cost_below_2_def
        generation_123_values print_123)

lemma Optimize_123_budget:
  "Optimize replay (Some count_generations) None 1 verbose engine_123 0
     = Some (generation_123, 1,
             if verbose then [CurrentMinimalCost (Finite 1) [1, 0], TerminatedByGenerations] else [])"
  unfolding Optimize_def population_123_def[symmetric]
  by (subst Optimize_loop_unfold, subst Optimize_loop_unfold)
     (simp add: step_123 observe_def call_callback_def count_generations_def print_123)

lemma answer_123:
  "answer replay (Some count_generations) (Some cost_below_2) 1 (InitPopulation replay engine_123) 0"
  using generations_123
  by (simp add: answer_def observe_def call_callback_def count_generations_def cost_below_2_def
        generation_123_values)

theorem Optimize_protocol_witness:
  "Optimize replay (Some count_generations) (Some cost_below_2) 5 True engine_123 0
     = Some (generation_123, 1, [CurrentMinimalCost (Finite 1) [1, 0], TerminatedByCondition])
   \<and> (\<exists>k. int k \<le> max 0 5
         \<and> generations replay k (InitPopulation replay engine_123) = Some generation_123
         \<and> (1::nat) = caller_state replay (Some count_generations) (Some cost_below_2) k
                        (InitPopulation replay engine_123) 0
         \<and> 0 < k
         \<and> answer replay (Some count_generations) (Some cost_below_2) k
              (InitPopulation replay engine_123) 0
         \<and> [CurrentMinimalCost (Finite 1) [1, 0], TerminatedByCondition]
             = progress_lines replay k (InitPopulation replay engine_123) @ [TerminatedByCondition])"
proof -
  have run: "Optimize replay (Some count_generations) (Some cost_below_2) 5 True engine_123 0
     = Some (generation_123, 1, [CurrentMinimalCost (Finite 1) [1, 0], TerminatedByCondition])"
    using Optimize_123_condition[of True] by simp
  from Optimize_protocol [OF run] show ?thesis using run by auto
qed

text \<open>
  C9, as stated, fails where it has \<open>Optimize\<close> report why it stopped: it returns no value,
  and without \<open>verbose\<close> it writes nothing. The run that the termination condition ends
  after the first generation of a budget of five, and the run that uses up a budget of one
  generation, return the same engine state, the same caller's state and an empty console.
\<close>

theorem Optimize_report_counterexample:
  "Optimize replay (Some count_generations) (Some cost_below_2) 5 False engine_123 0
     = Some (generation_123, 1, [])
   \<and> answer replay (Some count_generations) (Some cost_below_2) 1
         (InitPopulation replay engine_123) 0
   \<and> Optimize replay (Some count_generations) None 1 False engine_123 0
     = Some (generation_123, 1, [])"
  using Optimize_123_condition[of False] Optimize_123_budget[of False] answer_123 by simp

text \<open>
  Two returning runs of \<open>Optimize\<close> from the same engine state and the same caller's
  state make the same number of generations, whether or not they are verbose.
\<close>

lemma Optimize_same_run:
  assumes r1: "Optimize lib cb tc iterations verbose1 s w = Some (s1, w1, out1)"
    and r2: "Optimize lib cb tc iterations verbose2 s w = Some (s2, w2, out2)"
  shows "s1 = s2 \<and> w1 = w2 \<and> (verbose1 = verbose2 \<longrightarrow> out1 = out2)"
proof -
  let ?s = "InitPopulation lib s"
  let ?M = "max 0 iterations"
  from Optimize_result[OF r1] obtain k1 where
    b1: "int k1 \<le> ?M" and g1: "generations lib k1 ?s = Some s1"
    and c1: "w1 = caller_state lib cb tc k1 ?s w"
    and a1: "\<forall>j. 0 < j \<and> j < k1 \<longrightarrow> \<not> answer lib cb tc j ?s w"
    and d1: "0 < k1 \<and> answer lib cb tc k1 ?s w
                \<and> out1 = (if verbose1 then progress_lines lib k1 ?s @ [TerminatedByCondition] else [])
              \<or> int k1 = ?M \<and> (0 < k1 \<longrightarrow> \<not> answer lib cb tc k1 ?s w)
                \<and> out1 = (if verbose1 then progress_lines lib k1 ?s @ [TerminatedByGenerations] else [])"
    by blast
  from Optimize_result[OF r2] obtain k2 where
    b2: "int k2 \<le> ?M" and g2: "generations lib k2 ?s = Some s2"
    and c2: "w2 = caller_state lib cb tc k2 ?s w"
    and a2: "\<forall>j. 0 < j \<and> j < k2 \<longrightarrow> \<not> answer lib cb tc j ?s w"
    and d2: "0 < k2 \<and> answer lib cb tc k2 ?s w
                \<and> out2 = (if verbose2 then progress_lines lib k2 ?s @ [TerminatedByCondition] else [])
              \<or> int k2 = ?M \<and> (0 < k2 \<longrightarrow> \<not> answer lib cb tc k2 ?s w)
                \<and> out2 = (if verbose2 then progress_lines lib k2 ?s @ [TerminatedByGenerations] else [])"
    by blast
  have "\<not> k1 < k2"
  proof
    assume l: "k1 < k2"
    with b2 have "int k1 \<noteq> ?M" by simp
    with d1 have "0 < k1 \<and> answer lib cb tc k1 ?s w" by blast
    with a2 l show False by blast
  qed
  moreover have "\<not> k2 < k1"
  proof
    assume l: "k2 < k1"
    with b1 have "int k2 \<noteq> ?M" by simp
    with d2 have "0 < k2 \<and> answer lib cb tc k2 ?s w" by blast
    with a1 l show False by blast
  qed
  ultimately have k: "k1 = k2" by simp
  from g1 g2 k have "s1 = s2" by simp
  moreover from c1 c2 k have "w1 = w2" by simp
  moreover have "out1 = out2" if "verbose1 = verbose2"
    using d1 d2 k that by auto
  ultimately show ?thesis by blast
qed

end
